theory Spec2Isabelle
  imports Complex_Main "HOL-Library.Multiset"
begin

section \<open>Text cells\<close>

text \<open>
  A Python \<open>str\<close> is a sequence of Unicode code points, and so is a text cell of the
  data frame. The literals of the script are ASCII; \<open>ascii\<close> writes them.
\<close>

type_synonym codepoint = nat

type_synonym str = "codepoint list"

definition ascii :: "string \<Rightarrow> str" where
  "ascii s = map of_char s"

text \<open>
  What the script takes from its libraries and the source does not fix. The classes of
  the code points from 128 on come from the Unicode database of the interpreter:
  \<open>decimal c\<close> is the value of a decimal digit (category \<open>Nd\<close>, what \<open>\d\<close> matches and
  \<open>float\<close> reads), \<open>whitespace c\<close> tells whether \<open>str.isspace\<close> holds. \<open>long_sum xs\<close> is
  the sum that the data frame library returns for a float column whose exact sum does not
  fit the 53 bits of a float, where the result depends on the order of the additions.
\<close>

datatype float = Float nat nat | Inf | NaN

record library =
  decimal :: "codepoint \<Rightarrow> nat option"
  whitespace :: "codepoint \<Rightarrow> bool"
  long_sum :: "nat list \<Rightarrow> float"

text \<open>
  \<open>str.isspace\<close> of one code point, and the class \<open>\d\<close> of a pattern on \<open>str\<close>. Below
  128 these are the tab, the line and separator controls and the space, and the digits
  \<open>0\<close> to \<open>9\<close>.
\<close>

definition isspace :: "library \<Rightarrow> codepoint \<Rightarrow> bool" where
  "isspace L c =
     (if c < 128 then c \<in> set [9, 10, 11, 12, 13, 28, 29, 30, 31, 32] else whitespace L c)"

definition isdigit :: "library \<Rightarrow> codepoint \<Rightarrow> bool" where
  "isdigit L c = (if c < 128 then 48 \<le> c \<and> c \<le> 57 else decimal L c \<noteq> None)"

text \<open>\<open>str.strip()\<close>: whitespace is removed at both ends.\<close>

definition strip :: "library \<Rightarrow> str \<Rightarrow> str" where
  "strip L s = rev (dropWhile (isspace L) (rev (dropWhile (isspace L) s)))"

text \<open>\<open>str.split(",")\<close>: the pieces between the separators; never an empty list.\<close>

fun split :: "codepoint \<Rightarrow> str \<Rightarrow> str list" where
  "split sep [] = [[]]"
| "split sep (c # cs) =
     (if c = sep then [] # split sep cs
      else (case split sep cs of
              [] \<Rightarrow> [[c]]
            | w # ws \<Rightarrow> (c # w) # ws))"

text \<open>\<open>", ".join(xs)\<close> and its relatives.\<close>

fun join :: "str \<Rightarrow> str list \<Rightarrow> str" where
  "join sep [] = []"
| "join sep [x] = x"
| "join sep (x # y # ys) = x @ sep @ join sep (y # ys)"

subsection \<open>Numbers as text\<close>

text \<open>\<open>str(n)\<close> of a non-negative integer: its decimal digits, in ASCII.\<close>

fun str_nat :: "nat \<Rightarrow> str" where
  "str_nat n = (if n < 10 then [48 + n] else str_nat (n div 10) @ [48 + n mod 10])"

declare str_nat.simps [simp del]

text \<open>The value of one decimal digit, and the integer that a run of digits denotes.\<close>

definition digit_value :: "library \<Rightarrow> codepoint \<Rightarrow> nat" where
  "digit_value L c =
     (if c < 128 then c - 48 else (case decimal L c of None \<Rightarrow> 0 | Some d \<Rightarrow> d))"

definition int_of_digits :: "library \<Rightarrow> str \<Rightarrow> nat" where
  "int_of_digits L ds = foldl (\<lambda>n c. 10 * n + digit_value L c) 0 ds"

subsection \<open>Floats\<close>

text \<open>
  The floats of the script are IEEE binary64 values that are not negative: \<open>Float n d\<close>
  is the value \<open>n / d\<close>, \<open>Inf\<close> the positive infinity and \<open>NaN\<close> the result of \<open>0 / 0\<close>. A
  missing cell of a float column is \<open>None\<close> of the option type, not \<open>NaN\<close>.

  \<open>round_half_even n d\<close> is the integer nearest to \<open>n / d\<close>, a tie going to the even
  neighbour; \<open>bitlen n\<close> is the number of binary digits of \<open>n\<close>.
\<close>

definition round_half_even :: "nat \<Rightarrow> nat \<Rightarrow> nat" where
  "round_half_even n d =
     (let q = n div d; r = n mod d
      in if 2 * r < d then q
         else if d < 2 * r then q + 1
         else if even q then q else q + 1)"

fun bitlen :: "nat \<Rightarrow> nat" where
  "bitlen n = (if n = 0 then 0 else Suc (bitlen (n div 2)))"

declare bitlen.simps [simp del]

text \<open>
  The binary64 value nearest to an integer: the integer itself below \<open>2^53\<close>, otherwise
  its 53 leading binary digits, rounded, the tie to even.
\<close>

definition nearest64 :: "nat \<Rightarrow> nat" where
  "nearest64 n =
     (if n < 2 ^ 53 then n
      else (let e = bitlen n - 53 in round_half_even n (2 ^ e) * 2 ^ e))"

text \<open>
  The binary64 value nearest to the quotient \<open>n / d\<close> of two integers, \<open>d\<close> positive.
  \<open>fl\<close> is the binary exponent of the quotient, \<open>e\<close> that of the last place kept, which
  is \<open>-1074\<close> for the subnormal values; a result of \<open>2^1024\<close> or more is the infinity.
\<close>

definition round64 :: "nat \<Rightarrow> nat \<Rightarrow> float" where
  "round64 n d =
     (if n = 0 then Float 0 1
      else (let k = int (bitlen n) - int (bitlen d);
                fl = (if (if 0 \<le> k then d * 2 ^ nat k \<le> n else d \<le> n * 2 ^ nat (- k))
                      then k else k - 1);
                e = max (fl - 52) (- 1074)
            in if 0 \<le> e
               then (let v = round_half_even n (d * 2 ^ nat e) * 2 ^ nat e
                     in if 2 ^ 1024 \<le> v then Inf else Float v 1)
               else Float (round_half_even (n * 2 ^ nat (- e)) d) (2 ^ nat (- e))))"

text \<open>
  \<open>float(ds)\<close> of a run of decimal digits, what \<open>astype(float)\<close> does to a text cell:
  the nearest binary64 value, the infinity from \<open>2^1024\<close> on.
\<close>

definition float_of_digits :: "library \<Rightarrow> str \<Rightarrow> float" where
  "float_of_digits L ds =
     (let v = nearest64 (int_of_digits L ds) in if 2 ^ 1024 \<le> v then Inf else Float v 1)"

text \<open>
  \<open>a / b\<close> on two counts (64-bit integers): both become floats and are divided. Then
  \<open>x * 100\<close>.
\<close>

definition true_divide :: "nat \<Rightarrow> nat \<Rightarrow> float" where
  "true_divide a b =
     (if b = 0 then (if a = 0 then NaN else Inf) else round64 (nearest64 a) (nearest64 b))"

definition times_100 :: "float \<Rightarrow> float" where
  "times_100 x = (case x of Float n d \<Rightarrow> round64 (n * 100) d | Inf \<Rightarrow> Inf | NaN \<Rightarrow> NaN)"

text \<open>
  \<open>f"{x:.0f}"\<close> and \<open>f"{x:.1f}"\<close>: the decimal text of the integer (or of the tenths)
  nearest to the exact value of the float, a tie going to the even neighbour.
\<close>

definition format_f0 :: "float \<Rightarrow> str" where
  "format_f0 x =
     (case x of
        Float n d \<Rightarrow> str_nat (round_half_even n d)
      | Inf \<Rightarrow> ascii ''inf''
      | NaN \<Rightarrow> ascii ''nan'')"

definition format_f1 :: "float \<Rightarrow> str" where
  "format_f1 x =
     (case x of
        Float n d \<Rightarrow>
          (let t = round_half_even (10 * n) d
           in str_nat (t div 10) @ ascii ''.'' @ str_nat (t mod 10))
      | Inf \<Rightarrow> ascii ''inf''
      | NaN \<Rightarrow> ascii ''nan'')"

subsection \<open>Extraction of a number\<close>

text \<open>
  One cell of \<open>Series.str.extract(r"(\d+)")\<close>: the leftmost match of the greedy group,
  NaN (\<open>None\<close>) when the pattern matches nowhere.
\<close>

definition str_extract :: "library \<Rightarrow> str \<Rightarrow> str option" where
  "str_extract L s =
     (case dropWhile (\<lambda>c. \<not> isdigit L c) s of
        [] \<Rightarrow> None
      | d # ds \<Rightarrow> Some (takeWhile (isdigit L) (d # ds)))"

text \<open>\<open>.str.extract(r"(\d+)").astype(float)\<close> on one cell; a NaN cell stays NaN.\<close>

definition extract_number :: "library \<Rightarrow> str option \<Rightarrow> float option" where
  "extract_number L cell =
     (case cell of
        None \<Rightarrow> None
      | Some s \<Rightarrow> map_option (float_of_digits L) (str_extract L s))"

section \<open>The data frame\<close>

text \<open>
  One record of the catalogue, with the columns the script reads or writes. A NaN cell is
  \<open>None\<close>. The column \<open>year_added\<close> is written by the cleaning step, whatever it held
  before. \<open>release_year\<close> is an integer column, as in the data set.
\<close>

record row =
  title :: "str option"
  type :: "str option"
  country :: "str option"
  rating :: "str option"
  duration :: "str option"
  listed_in :: "str option"
  date_added :: "str option"
  release_year :: "int option"
  year_added :: "nat option"

text \<open>
  The frame: the normalised column names of the file's header and the records. A cell of
  a column that the header does not name is never read.
\<close>

record frame =
  columns :: "str list"
  rows :: "row list"

text \<open>
  A parsed calendar date. \<open>pandas.to_datetime\<close> itself is library code: the model
  takes it as a parameter \<open>to_datetime\<close>, the function from the text of a cell of the
  column at hand to its date, which is \<open>None\<close> (NaT) for a text it cannot parse: that
  is what \<open>errors="coerce"\<close> asks for. The year of a timestamp has at most twelve digits.
\<close>

datatype date = Date (year: nat) (month: nat) (day: nat)

subsection \<open>Data cleaning\<close>

text \<open>\<open>fillna("Unknown").astype(str).str.strip()\<close> on one cell.\<close>

definition fillna_strip :: "library \<Rightarrow> str option \<Rightarrow> str option" where
  "fillna_strip L cell =
     Some (strip L (case cell of None \<Rightarrow> ascii ''Unknown'' | Some s \<Rightarrow> s))"

definition clean_row :: "library \<Rightarrow> (str \<Rightarrow> date option) \<Rightarrow> str list \<Rightarrow> row \<Rightarrow> row" where
  "clean_row L to_datetime cols r =
     r\<lparr> country :=
          (if ascii ''country'' \<in> set cols then fillna_strip L (country r) else country r),
        rating :=
          (if ascii ''rating'' \<in> set cols then fillna_strip L (rating r) else rating r),
        duration :=
          (if ascii ''duration'' \<in> set cols then fillna_strip L (duration r) else duration r),
        listed_in :=
          (if ascii ''listed_in'' \<in> set cols then fillna_strip L (listed_in r)
           else listed_in r),
        year_added :=
          (if ascii ''date_added'' \<in> set cols
           then (case date_added r of
                   None \<Rightarrow> None
                 | Some s \<Rightarrow> map_option year (to_datetime s))
           else None),
        release_year := (if ascii ''release_year'' \<in> set cols then release_year r else None) \<rparr>"

definition add_column :: "str \<Rightarrow> str list \<Rightarrow> str list" where
  "add_column c cols = (if c \<in> set cols then cols else cols @ [c])"

definition clean :: "library \<Rightarrow> (str \<Rightarrow> date option) \<Rightarrow> frame \<Rightarrow> frame" where
  "clean L to_datetime df =
     \<lparr> columns = add_column (ascii ''release_year'') (add_column (ascii ''year_added'') (columns df)),
       rows = map (clean_row L to_datetime (columns df)) (rows df) \<rparr>"

subsection \<open>Series operations\<close>

text \<open>\<open>dropna()\<close> on a column of cells.\<close>

definition dropna :: "'a option list \<Rightarrow> 'a list" where
  "dropna cells = map the (filter (\<lambda>c. c \<noteq> None) cells)"

text \<open>The distinct values of a list, each at its first place.\<close>

fun uniq :: "'a list \<Rightarrow> 'a list" where
  "uniq [] = []"
| "uniq (x # xs) = x # filter (\<lambda>y. y \<noteq> x) (uniq xs)"

text \<open>
  \<open>sort_values\<close> on a series of counts, as a list of (label, count). The sort is the
  stable one: labels with equal counts keep their order, in both directions.
\<close>

definition sort_values :: "bool \<Rightarrow> ('a \<times> nat) list \<Rightarrow> ('a \<times> nat) list" where
  "sort_values ascending kvs =
     (if ascending then sort_key snd kvs else sort_key (\<lambda>kv. - int (snd kv)) kvs)"

text \<open>
  \<open>value_counts()\<close>: NaN cells are dropped, every distinct value gets the number of its
  occurrences, and the series is ordered by count, largest first.
\<close>

definition value_counts :: "'a option list \<Rightarrow> ('a \<times> nat) list" where
  "value_counts cells =
     (let xs = dropna cells
      in sort_values False (map (\<lambda>k. (k, count_list xs k)) (uniq xs)))"

text \<open>\<open>.head(n)\<close>, \<open>.max()\<close>, \<open>.sum()\<close>, \<open>.iloc[-1]\<close> and \<open>.idxmax()\<close> of such a series.\<close>

definition head :: "nat \<Rightarrow> 'a list \<Rightarrow> 'a list" where
  "head n xs = take n xs"

definition values_max :: "('a \<times> nat) list \<Rightarrow> nat" where
  "values_max kvs = foldr max (map snd kvs) 0"

definition values_sum :: "('a \<times> nat) list \<Rightarrow> nat" where
  "values_sum kvs = sum_list (map snd kvs)"

definition values_last :: "('a \<times> nat) list \<Rightarrow> nat" where
  "values_last kvs = (case rev kvs of [] \<Rightarrow> 0 | kv # _ \<Rightarrow> snd kv)"

text \<open>
  \<open>idxmax()\<close>: the first label that holds the largest count. On an empty series pandas
  raises; the script calls it on non-empty series only, and the model gives \<open>None\<close>.
\<close>

definition idxmax :: "('a \<times> nat) list \<Rightarrow> 'a option" where
  "idxmax kvs = map_option fst (find (\<lambda>kv. snd kv = values_max kvs) kvs)"

text \<open>
  \<open>.str.split(",")\<close>, \<open>explode\<close> and \<open>.str.strip()\<close> on a column: one cell per piece, a
  NaN cell stays one NaN cell.
\<close>

definition split_explode_strip :: "library \<Rightarrow> str option list \<Rightarrow> str option list" where
  "split_explode_strip L cells =
     concat (map (\<lambda>cell. case cell of
                            None \<Rightarrow> [None]
                          | Some s \<Rightarrow> map (\<lambda>w. Some (strip L w)) (split 44 s)) cells)"

text \<open>
  \<open>groupby(key)[val].count().sort_index()\<close> over records that all have a key: per key,
  the number of records whose \<open>val\<close> cell is not NaN, keys ascending.
\<close>

definition groupby_count ::
  "('r \<Rightarrow> 'k::linorder) \<Rightarrow> ('r \<Rightarrow> 'v option) \<Rightarrow> 'r list \<Rightarrow> ('k \<times> nat) list" where
  "groupby_count key val rs =
     map (\<lambda>k. (k, length (filter (\<lambda>r. key r = k \<and> val r \<noteq> None) rs)))
         (sort (remdups (map key rs)))"

text \<open>
  \<open>.mean()\<close> of a float column without NaN that is not empty. An infinity makes the
  sum infinite. While the exact sum of the values, which are integers, is below \<open>2^53\<close>,
  every order of the additions gives it exactly; beyond, the sum is the library's.
\<close>

definition float_values :: "float list \<Rightarrow> nat list" where
  "float_values xs = concat (map (\<lambda>x. case x of Float n d \<Rightarrow> [n div d] | _ \<Rightarrow> []) xs)"

definition mean :: "library \<Rightarrow> float list \<Rightarrow> float" where
  "mean L xs =
     (if Inf \<in> set xs then Inf
      else if sum_list (float_values xs) < 2 ^ 53
      then true_divide (sum_list (float_values xs)) (length xs)
      else (case long_sum L (float_values xs) of
              Float n d \<Rightarrow> round64 n (d * nearest64 (length xs))
            | x \<Rightarrow> x))"

section \<open>Aggregates\<close>

text \<open>All of them read the cleaned frame.\<close>

definition type_counts :: "frame \<Rightarrow> (str \<times> nat) list" where
  "type_counts df = sort_values False (value_counts (map type (rows df)))"

definition countries :: "library \<Rightarrow> frame \<Rightarrow> str option list" where
  "countries L df = split_explode_strip L (map country (rows df))"

definition top_countries :: "library \<Rightarrow> frame \<Rightarrow> (str \<times> nat) list" where
  "top_countries L df =
     sort_values True
       (head 10 (value_counts (filter (\<lambda>c. c \<noteq> Some (ascii ''Unknown'')) (countries L df))))"

definition year_counts :: "frame \<Rightarrow> (nat \<times> nat) list" where
  "year_counts df =
     groupby_count (\<lambda>r. the (year_added r)) title
       (filter (\<lambda>r. year_added r \<noteq> None) (rows df))"

definition genres :: "library \<Rightarrow> frame \<Rightarrow> str option list" where
  "genres L df = split_explode_strip L (map listed_in (rows df))"

definition top_genres :: "library \<Rightarrow> frame \<Rightarrow> (str \<times> nat) list" where
  "top_genres L df =
     sort_values True
       (head 15 (value_counts (filter (\<lambda>c. c \<noteq> Some (ascii ''Unknown'')) (genres L df))))"

definition movies :: "frame \<Rightarrow> row list" where
  "movies df = filter (\<lambda>r. type r = Some (ascii ''Movie'')) (rows df)"

definition duration_minutes :: "library \<Rightarrow> row \<Rightarrow> float option" where
  "duration_minutes L r = extract_number L (duration r)"

definition decade :: "row \<Rightarrow> int option" where
  "decade r = map_option (\<lambda>y. y div 10 * 10) (release_year r)"

definition recent_decades :: "frame \<Rightarrow> row list" where
  "recent_decades df =
     filter (\<lambda>r. case decade r of None \<Rightarrow> False | Some d \<Rightarrow> 1980 \<le> d)
       (filter (\<lambda>r. decade r \<noteq> None) (movies df))"

definition tv :: "frame \<Rightarrow> row list" where
  "tv df = filter (\<lambda>r. type r = Some (ascii ''TV Show'')) (rows df)"

definition seasons :: "library \<Rightarrow> row \<Rightarrow> float option" where
  "seasons L r = extract_number L (duration r)"

section \<open>Insights\<close>

text \<open>
  The label of a year in the yearly series. \<open>.dt.year\<close> is an integer column when every
  date parsed and a float column as soon as one cell is NaT; the f-string then prints
  the float, \<open>2019.0\<close>.
\<close>

definition str_year :: "frame \<Rightarrow> nat \<Rightarrow> str" where
  "str_year df y =
     (if \<exists>r\<in>set (rows df). year_added r = None then str_nat y @ ascii ''.0'' else str_nat y)"

definition ins_type :: "frame \<Rightarrow> str list" where
  "ins_type df =
     (let tc = type_counts df
      in if tc = [] then []
         else (case idxmax tc of
                 None \<Rightarrow> []
               | Some dominant \<Rightarrow>
                   [dominant @ ascii '' lead with ~''
                      @ format_f1 (times_100 (true_divide (values_max tc) (values_sum tc)))
                      @ ascii ''% of total titles.'']))"

definition ins_countries :: "library \<Rightarrow> frame \<Rightarrow> str list" where
  "ins_countries L df =
     (let tc = top_countries L df
      in if tc = [] then []
         else [ascii ''Top content countries: ''
                 @ join (ascii '', '') (map fst (take 3 (sort_values False tc)))
                 @ ascii ''.''])"

definition ins_growth :: "frame \<Rightarrow> str list" where
  "ins_growth df =
     (let yc = year_counts df
      in if length yc > 1
         then (case idxmax yc of
                 None \<Rightarrow> []
               | Some peak \<Rightarrow>
                   [ascii ''Catalog peak additions around '' @ str_year df peak
                      @ ascii ''; latest year is ~''
                      @ format_f0 (times_100 (true_divide (values_last yc) (values_max yc)))
                      @ ascii ''% of peak.''])
         else [])"

definition ins_duration :: "library \<Rightarrow> frame \<Rightarrow> str list" where
  "ins_duration L df =
     (let ds = dropna (map (duration_minutes L) (movies df))
      in if ds \<noteq> []
         then [ascii ''Avg movie duration '' @ [8776] @ ascii '' ''
                 @ format_f0 (mean L ds) @ ascii '' minutes.'']
         else [])"

definition ins :: "library \<Rightarrow> frame \<Rightarrow> str list" where
  "ins L df = ins_type df @ ins_countries L df @ ins_growth df @ ins_duration L df"

definition insights_text :: "str list \<Rightarrow> str" where
  "insights_text sentences =
     ascii ''Key Insights:'' @ [10] @ ascii ''- '' @ join ([10] @ ascii ''- '') sentences"

section \<open>The script\<close>

text \<open>
  The charts themselves are drawn by the plotting library; the model keeps the names
  under which \<open>saveplot\<close> stores them, in order.
\<close>

definition saved_plots :: "library \<Rightarrow> frame \<Rightarrow> str list" where
  "saved_plots L df =
     map ascii
       [''01_movies_vs_tv.png'', ''02_top_countries.png'', ''03_growth_by_year_added.png'',
        ''04_top_genres.png'', ''05_movie_duration_hist.png'',
        ''06_movie_duration_by_decade.png'']
     @ (if length (filter (\<lambda>r. seasons L r \<noteq> None) (tv df)) > 0
        then [ascii ''07_tv_seasons_hist.png''] else [])"

datatype error = KeyError str

record outputs =
  figures :: "str list"
  insights_txt :: str

text \<open>
  The columns the script indexes, in the order it first does so; a missing one raises
  \<open>KeyError\<close> there. \<open>year_added\<close> and \<open>release_year\<close> exist after cleaning.
\<close>

definition required_columns :: "str list" where
  "required_columns = map ascii [''type'', ''country'', ''title'', ''listed_in'', ''duration'']"

definition run :: "library \<Rightarrow> (str \<Rightarrow> date option) \<Rightarrow> frame \<Rightarrow> error + outputs" where
  "run L to_datetime raw =
     (let df = clean L to_datetime raw
      in case filter (\<lambda>c. c \<notin> set (columns df)) required_columns of
           c # _ \<Rightarrow> Inl (KeyError c)
         | [] \<Rightarrow> Inr \<lparr> figures = saved_plots L df, insights_txt = insights_text (ins L df) \<rparr>)"

section \<open>Example records\<close>

text \<open>
  The header of the data set after normalisation, and a record with every cell NaN,
  from which the examples below are written by record update. \<open>ascii_only\<close> is a library
  with no digit and no whitespace outside ASCII.
\<close>

definition all_columns :: "str list" where
  "all_columns =
     map ascii [''show_id'', ''type'', ''title'', ''director'', ''cast'', ''country'',
                ''date_added'', ''release_year'', ''rating'', ''duration'', ''listed_in'',
                ''description'']"

definition blank :: row where
  "blank = \<lparr> title = None, type = None, country = None, rating = None, duration = None,
             listed_in = None, date_added = None, release_year = None, year_added = None \<rparr>"

definition ascii_only :: library where
  "ascii_only = \<lparr> decimal = (\<lambda>c. None), whitespace = (\<lambda>c. False),
                  long_sum = (\<lambda>xs. Float (nearest64 (sum_list xs)) 1) \<rparr>"

text \<open>Two movies, one released in 1994 and one in 1975, and the table that holds them.\<close>

definition movie_1994 :: row where
  "movie_1994 = blank\<lparr> title := Some (ascii ''Pulp Fiction''), type := Some (ascii ''Movie''),
                        duration := Some (ascii ''154 min''), release_year := Some 1994 \<rparr>"

definition movie_1975 :: row where
  "movie_1975 = blank\<lparr> title := Some (ascii ''Jaws''), type := Some (ascii ''Movie''),
                        duration := Some (ascii ''124 min''), release_year := Some 1975 \<rparr>"

definition two_movies :: frame where
  "two_movies = \<lparr> columns = all_columns, rows = [movie_1975, movie_1994] \<rparr>"

text \<open>Two shows: one with a number of seasons, one whose duration cell is empty.\<close>

definition show_two_seasons :: row where
  "show_two_seasons = blank\<lparr> title := Some (ascii ''Dark''), type := Some (ascii ''TV Show''),
                              duration := Some (ascii ''2 Seasons'') \<rparr>"

definition show_no_duration :: row where
  "show_no_duration = blank\<lparr> title := Some (ascii ''Untitled''), type := Some (ascii ''TV Show'') \<rparr>"

text \<open>
  A library that knows the Arabic-Indic digits \<open>U+0660\<close> to \<open>U+0669\<close> and the no-break
  space \<open>U+00A0\<close> besides ASCII.
\<close>

definition arabic_indic :: library where
  "arabic_indic =
     \<lparr> decimal = (\<lambda>c. if 1632 \<le> c \<and> c \<le> 1641 then Some (c - 1632) else None),
       whitespace = (\<lambda>c. c = 160),
       long_sum = (\<lambda>xs. Float (nearest64 (sum_list xs)) 1) \<rparr>"

text \<open>A show whose number of seasons is written with an Arabic-Indic digit.\<close>

definition show_arabic_indic :: row where
  "show_arabic_indic = blank\<lparr> title := Some (ascii ''Al Hayba''), type := Some (ascii ''TV Show''),
                               duration := Some ([1635] @ ascii '' Seasons'') \<rparr>"

text \<open>Two movies and one show.\<close>

definition two_movies_one_show :: frame where
  "two_movies_one_show =
     \<lparr> columns = all_columns, rows = [movie_1975, show_two_seasons, movie_1994] \<rparr>"

text \<open>
  A date parser that knows two dates, and records added on them; one record has no date.
\<close>

definition example_dates :: "str \<Rightarrow> date option" where
  "example_dates s =
     (if s = ascii ''September 9, 2019'' then Some (Date 2019 9 9)
      else if s = ascii ''January 1, 2020'' then Some (Date 2020 1 1)
      else None)"

definition added_2019 :: row where
  "added_2019 = blank\<lparr> title := Some (ascii ''Dark''), type := Some (ascii ''TV Show''),
                        date_added := Some (ascii ''September 9, 2019'') \<rparr>"

definition added_2020 :: row where
  "added_2020 = blank\<lparr> title := Some (ascii ''Jaws''), type := Some (ascii ''Movie''),
                        date_added := Some (ascii ''January 1, 2020'') \<rparr>"

definition added_unknown :: row where
  "added_unknown = blank\<lparr> title := Some (ascii ''Untitled''), type := Some (ascii ''Movie'') \<rparr>"

definition dated_complete :: frame where
  "dated_complete = \<lparr> columns = all_columns, rows = [added_2019, added_2020, added_2019] \<rparr>"

definition dated_with_gap :: frame where
  "dated_with_gap =
     \<lparr> columns = all_columns, rows = [added_2019, added_unknown, added_2020, added_2019] \<rparr>"

text \<open>A co-production of two countries, and a record that names no country.\<close>

definition coproduction :: row where
  "coproduction = blank\<lparr> title := Some (ascii ''The Lunchbox''), type := Some (ascii ''Movie''),
                          country := Some (ascii ''United States, India'') \<rparr>"

definition no_country :: row where
  "no_country = blank\<lparr> title := Some (ascii ''Untitled''), type := Some (ascii ''Movie'') \<rparr>"

text \<open>
  Two records that list eleven and ten countries: ten of the countries occur twice, the
  eleventh once.
\<close>

definition eleven_countries :: row where
  "eleven_countries = blank\<lparr> title := Some (ascii ''Atlas''), type := Some (ascii ''Movie''),
      country := Some (ascii ''A, B, C, D, E, F, G, H, I, J, K'') \<rparr>"

definition ten_countries :: row where
  "ten_countries = blank\<lparr> title := Some (ascii ''Globe''), type := Some (ascii ''Movie''),
      country := Some (ascii ''A, B, C, D, E, F, G, H, I, J'') \<rparr>"

definition many_countries :: frame where
  "many_countries = \<lparr> columns = all_columns, rows = [eleven_countries, ten_countries] \<rparr>"

section \<open>Results of the script\<close>

lemma set_add_column: "set (add_column c cols) = insert c (set cols)"
  by (auto simp: add_column_def)

lemma columns_clean:
  "set (columns (clean L to_datetime raw))
     = insert (ascii ''release_year'') (insert (ascii ''year_added'') (set (columns raw)))"
  by (simp add: clean_def set_add_column)

lemma missing_columns_clean:
  "filter (\<lambda>c. c \<notin> set (columns (clean L to_datetime raw))) required_columns
     = filter (\<lambda>c. c \<notin> set (columns raw)) required_columns"
  by (rule filter_cong [OF refl]) (auto simp: columns_clean required_columns_def ascii_def)

lemma run_Inr:
  assumes "set required_columns \<subseteq> set (columns raw)"
  shows "run L to_datetime raw
           = Inr \<lparr> figures = saved_plots L (clean L to_datetime raw),
                   insights_txt = insights_text (ins L (clean L to_datetime raw)) \<rparr>"
proof -
  from assms have "filter (\<lambda>c. c \<notin> set (columns raw)) required_columns = []"
    by (auto simp: filter_empty_conv)
  then show ?thesis
    by (simp add: run_def Let_def missing_columns_clean)
qed

lemma run_Inl:
  assumes "\<not> set required_columns \<subseteq> set (columns raw)"
  shows "\<exists>c\<in>set required_columns. c \<notin> set (columns raw) \<and> run L to_datetime raw = Inl (KeyError c)"
proof -
  from assms have "filter (\<lambda>c. c \<notin> set (columns raw)) required_columns \<noteq> []"
    by (auto simp: filter_empty_conv)
  then obtain c cs where cs: "filter (\<lambda>c. c \<notin> set (columns raw)) required_columns = c # cs"
    by (cases "filter (\<lambda>c. c \<notin> set (columns raw)) required_columns") auto
  then have "c \<in> set (filter (\<lambda>c. c \<notin> set (columns raw)) required_columns)"
    by simp
  then have "c \<in> set required_columns" "c \<notin> set (columns raw)"
    by simp_all
  moreover from cs have "run L to_datetime raw = Inl (KeyError c)"
    by (simp add: run_def Let_def missing_columns_clean)
  ultimately show ?thesis
    by blast
qed

lemma run_figures:
  assumes "run L to_datetime raw = Inr out"
  shows "figures out = saved_plots L (clean L to_datetime raw)"
    and "insights_txt out = insights_text (ins L (clean L to_datetime raw))"
proof -
  have "set required_columns \<subseteq> set (columns raw)"
  proof (rule ccontr)
    assume "\<not> set required_columns \<subseteq> set (columns raw)"
    from run_Inl [OF this, of L to_datetime] assms show False
      by auto
  qed
  from run_Inr [OF this, of L to_datetime] assms
  have "out = \<lparr> figures = saved_plots L (clean L to_datetime raw),
                insights_txt = insights_text (ins L (clean L to_datetime raw)) \<rparr>"
    by simp
  then show "figures out = saved_plots L (clean L to_datetime raw)"
    and "insights_txt out = insights_text (ins L (clean L to_datetime raw))"
    by simp_all
qed

lemma required_all_columns: "set required_columns \<subseteq> set all_columns"
  by (simp add: required_columns_def all_columns_def)

section \<open>Facts about the series operations\<close>

lemma mset_sort_values: "mset (sort_values ascending kvs) = mset kvs"
  by (simp add: sort_values_def)

lemma set_sort_values: "set (sort_values ascending kvs) = set kvs"
  by (simp add: sort_values_def)

lemma length_sort_values: "length (sort_values ascending kvs) = length kvs"
  by (simp add: sort_values_def)

lemma sort_values_Nil: "(sort_values ascending kvs = []) = (kvs = [])"
proof -
  have "(length (sort_values ascending kvs) = 0) = (length kvs = 0)"
    by (simp only: length_sort_values)
  then show ?thesis
    by (simp only: length_0_conv)
qed

lemma values_sum_mset: "values_sum kvs = sum_mset (image_mset snd (mset kvs))"
  by (simp add: values_sum_def sum_mset_sum_list [symmetric] del: sum_mset_sum_list)

lemma values_sum_sort_values: "values_sum (sort_values ascending kvs) = values_sum kvs"
  by (simp add: values_sum_mset mset_sort_values)

lemma values_max_Max: "values_max kvs = Max (insert 0 (snd ` set kvs))"
proof (induction kvs)
  case Nil
  show ?case
    by (simp add: values_max_def)
next
  case (Cons kv kvs)
  have "values_max (kv # kvs) = max (snd kv) (values_max kvs)"
    by (simp add: values_max_def)
  also have "\<dots> = max (snd kv) (Max (insert 0 (snd ` set kvs)))"
    by (simp add: Cons.IH)
  also have "\<dots> = Max (insert (snd kv) (insert 0 (snd ` set kvs)))"
    by simp
  also have "insert (snd kv) (insert 0 (snd ` set kvs)) = insert 0 (snd ` set (kv # kvs))"
    by auto
  finally show ?case .
qed

lemma values_max_sort_values: "values_max (sort_values ascending kvs) = values_max kvs"
  by (simp add: values_max_Max set_sort_values)

lemma values_max_upper: "kv \<in> set kvs \<Longrightarrow> snd kv \<le> values_max kvs"
  by (simp add: values_max_Max)

lemma values_max_attained:
  assumes "kvs \<noteq> []"
  shows "\<exists>kv\<in>set kvs. snd kv = values_max kvs"
proof -
  have "Max (insert 0 (snd ` set kvs)) \<in> insert 0 (snd ` set kvs)"
    by (rule Max_in) simp_all
  then have "values_max kvs = 0 \<or> values_max kvs \<in> snd ` set kvs"
    by (simp add: values_max_Max)
  then show ?thesis
  proof
    assume zero: "values_max kvs = 0"
    from assms obtain kv where kv: "kv \<in> set kvs"
      by (cases kvs) auto
    with values_max_upper [OF kv] zero show ?thesis
      by auto
  next
    assume "values_max kvs \<in> snd ` set kvs"
    then obtain kv where "kv \<in> set kvs" "values_max kvs = snd kv"
      by (rule imageE)
    then show ?thesis
      by (intro bexI [of _ kv]) simp_all
  qed
qed

lemma find_Some_holds: "find P xs = Some x \<Longrightarrow> P x \<and> x \<in> set xs"
  by (induction xs) (auto split: if_splits)

lemma idxmax_Some:
  assumes "kvs \<noteq> []"
  shows "\<exists>k. idxmax kvs = Some k \<and> (k, values_max kvs) \<in> set kvs"
proof -
  from values_max_attained [OF assms]
  obtain kv where found: "find (\<lambda>kv. snd kv = values_max kvs) kvs = Some kv"
    by (cases "find (\<lambda>kv. snd kv = values_max kvs) kvs") (auto simp: find_None_iff)
  from find_Some_holds [OF found] have "snd kv = values_max kvs" "kv \<in> set kvs"
    by simp_all
  then have "(fst kv, values_max kvs) \<in> set kvs"
    by (cases kv) simp
  moreover have "idxmax kvs = Some (fst kv)"
    by (simp add: idxmax_def found)
  ultimately show ?thesis
    by blast
qed

lemma set_uniq: "set (uniq xs) = set xs"
  by (induction xs) auto

lemma distinct_uniq: "distinct (uniq xs)"
  by (induction xs) (simp_all add: set_uniq)

lemma sum_count_uniq: "sum_list (map (count_list xs) (uniq xs)) = length xs"
proof -
  have "sum_list (map (count_list xs) (uniq xs)) = sum (count_list xs) (set (uniq xs))"
    by (rule sum_list_distinct_conv_sum_set) (rule distinct_uniq)
  also have "\<dots> = length xs"
    by (simp add: set_uniq sum_count_set)
  finally show ?thesis .
qed

lemma set_value_counts:
  "set (value_counts cells) = (\<lambda>k. (k, count_list (dropna cells) k)) ` set (dropna cells)"
  by (simp add: value_counts_def Let_def set_sort_values set_uniq)

lemma map_fst_sort_values_distinct:
  "distinct (map fst (sort_values ascending kvs)) = distinct (map fst kvs)"
proof -
  have "mset (map fst (sort_values ascending kvs)) = mset (map fst kvs)"
    by (simp add: mset_sort_values)
  then show ?thesis
    by (metis distinct_count_atmost_1 set_mset_mset)
qed

lemma distinct_value_counts: "distinct (map fst (value_counts cells))"
  by (simp add: value_counts_def Let_def map_fst_sort_values_distinct comp_def distinct_uniq)

lemma values_sum_value_counts: "values_sum (value_counts cells) = length (dropna cells)"
  by (simp add: value_counts_def Let_def values_sum_sort_values)
     (simp add: values_sum_def comp_def sum_count_uniq)

lemma value_counts_Nil: "(value_counts cells = []) = (dropna cells = [])"
proof -
  have "(set (value_counts cells) = {}) = (set (dropna cells) = {})"
    by (simp add: set_value_counts)
  then show ?thesis
    by simp
qed

lemma length_value_counts: "length (value_counts cells) = card (set (dropna cells))"
proof -
  have "length (value_counts cells) = length (uniq (dropna cells))"
    by (simp add: value_counts_def Let_def length_sort_values)
  also have "\<dots> = card (set (uniq (dropna cells)))"
    by (simp add: distinct_card distinct_uniq)
  finally show ?thesis
    by (simp add: set_uniq)
qed

lemma sorted_sort_values_True: "sorted (map snd (sort_values True kvs))"
  by (simp add: sort_values_def)

lemma sorted_sort_values_False: "sorted (rev (map snd (sort_values False kvs)))"
proof -
  have "sorted (map (\<lambda>kv. - int (snd kv)) (sort_values False kvs))"
    by (simp add: sort_values_def)
  then have "sorted_wrt (\<lambda>a b. snd b \<le> snd a) (sort_values False kvs)"
    by (simp add: sorted_map sorted_wrt_map)
  then have "sorted_wrt (\<lambda>a b. b \<le> a) (map snd (sort_values False kvs))"
    by (simp add: sorted_wrt_map)
  then show ?thesis
    by (simp add: sorted_wrt_rev)
qed

lemma dropna_filter: "dropna (filter P cells) = filter (\<lambda>x. P (Some x)) (dropna cells)"
  by (induction cells) (auto simp: dropna_def)

lemma count_dropna: "count_list (dropna cells) k = count_list cells (Some k)"
  by (induction cells) (auto simp: dropna_def)

lemma set_dropna: "set (dropna cells) = {k. Some k \<in> set cells}"
  by (induction cells) (auto simp: dropna_def)

lemma length_dropna: "length (dropna cells) = length (filter (\<lambda>c. c \<noteq> None) cells)"
  by (simp add: dropna_def)

lemma count_list_map_filter: "count_list (map f xs) y = length (filter (\<lambda>x. f x = y) xs)"
  by (induction xs) auto

lemma count_list_filter: "count_list (filter P xs) x = (if P x then count_list xs x else 0)"
  by (induction xs) auto

section \<open>Facts about the floats\<close>

lemma bitlen_less: "n < 2 ^ bitlen n"
proof (induction n rule: bitlen.induct)
  case (1 n)
  show ?case
  proof (cases "n = 0")
    case True
    then show ?thesis
      by simp
  next
    case False
    with 1 have "n div 2 < 2 ^ bitlen (n div 2)"
      by simp
    then have "n < 2 * 2 ^ bitlen (n div 2)"
      by linarith
    with False show ?thesis
      by (simp add: bitlen.simps [of n])
  qed
qed

lemma bitlen_le: "0 < n \<Longrightarrow> 2 ^ (bitlen n - 1) \<le> n"
proof (induction n rule: bitlen.induct)
  case (1 n)
  show ?case
  proof (cases "n div 2 = 0")
    case True
    with 1(2) have "n = 1"
      by presburger
    then show ?thesis
      by (simp add: bitlen.simps [of "Suc 0"] bitlen.simps [of 0])
  next
    case False
    with 1 have "2 ^ (bitlen (n div 2) - 1) \<le> n div 2"
      by simp
    moreover from False have "0 < bitlen (n div 2)"
      by (simp add: bitlen.simps [of "n div 2"])
    ultimately have "2 ^ bitlen (n div 2) \<le> 2 * (n div 2)"
      by (cases "bitlen (n div 2)") simp_all
    also have "\<dots> \<le> n"
      by simp
    finally show ?thesis
      using 1(2) by (simp add: bitlen.simps [of n])
  qed
qed


lemma nearest64_exact: "n < 2 ^ 53 \<Longrightarrow> nearest64 n = n"
  by (simp add: nearest64_def)


lemma round_half_even_near:
  assumes "0 < d"
  shows "2 * (round_half_even n d * d) \<le> 2 * n + d \<and> 2 * n \<le> 2 * (round_half_even n d * d) + d"
proof -
  define q where "q = n div d"
  define r where "r = n mod d"
  have n: "n = q * d + r"
    by (simp add: q_def r_def)
  have r: "r < d"
    using assms by (simp add: r_def)
  have rhe: "round_half_even n d =
      (if 2 * r < d then q else if d < 2 * r then q + 1 else if even q then q else q + 1)"
    by (simp add: round_half_even_def Let_def q_def r_def)
  show ?thesis
    by (simp only: rhe) (use n r in \<open>auto simp: algebra_simps\<close>)
qed


lemma round64_exponent:
  assumes "0 < n" "0 < d"
  defines "k \<equiv> int (bitlen n) - int (bitlen d)"
  defines "fl \<equiv> (if (if 0 \<le> k then d * 2 ^ nat k \<le> n else d \<le> n * 2 ^ nat (- k)) then k else k - 1)"
  assumes "0 \<le> fl"
  shows "d * 2 ^ nat fl \<le> n"
proof (cases "if 0 \<le> k then d * 2 ^ nat k \<le> n else d \<le> n * 2 ^ nat (- k)")
  case True
  then have "fl = k"
    by (simp add: fl_def)
  with True assms(5) show ?thesis
    by simp
next
  case False
  then have fl: "fl = k - 1"
    by (simp add: fl_def)
  with assms(5) have k: "1 \<le> k"
    by simp
  then have len: "bitlen d + nat (k - 1) = bitlen n - 1"
    by (simp add: k_def)
  have "d * 2 ^ nat (k - 1) \<le> 2 ^ bitlen d * 2 ^ nat (k - 1)"
    using bitlen_less [of d] by simp
  also have "\<dots> = 2 ^ (bitlen n - 1)"
    by (simp only: power_add [symmetric] len)
  also have "\<dots> \<le> n"
    by (rule bitlen_le [OF assms(1)])
  finally show ?thesis
    by (simp only: fl)
qed

lemma round64_near:
  assumes d: "0 < d" and less: "n < d * 2 ^ j" and j: "j \<le> 52"
  shows "\<exists>v w. round64 n d = Float v w \<and> 0 < w
           \<and> \<bar>real v / real w - real n / real d\<bar> \<le> 1 / 2 ^ (54 - j)"
proof (cases "n = 0")
  case True
  then have "round64 n d = Float 0 1"
    by (simp add: round64_def)
  with True show ?thesis
    by simp
next
  case False
  then have n: "0 < n"
    by simp
  define k where "k = int (bitlen n) - int (bitlen d)"
  define fl where
    "fl = (if (if 0 \<le> k then d * 2 ^ nat k \<le> n else d \<le> n * 2 ^ nat (- k)) then k else k - 1)"
  define e where "e = max (fl - 52) (- 1074)"
  define w :: nat where "w = 2 ^ nat (- e)"
  define v where "v = round_half_even (n * w) d"
  have fl_less: "fl < int j"
  proof (rule ccontr)
    assume "\<not> fl < int j"
    then have big: "int j \<le> fl"
      by simp
    then have "0 \<le> fl"
      by simp
    then have "d * 2 ^ nat fl \<le> n"
      unfolding fl_def k_def by (rule round64_exponent [OF n d])
    moreover from big have "j \<le> nat fl"
      by simp
    then have "(2::nat) ^ j \<le> 2 ^ nat fl"
      by (rule power_increasing) simp
    then have "d * 2 ^ j \<le> d * 2 ^ nat fl"
      by simp
    ultimately show False
      using less by linarith
  qed
  with j have e_neg: "e < 0" and e_le: "53 - int j \<le> - e"
    by (simp_all add: e_def)
  from e_le j have "53 - j \<le> nat (- e)"
    by simp
  then have "(2::nat) ^ (53 - j) \<le> 2 ^ nat (- e)"
    by (rule power_increasing) simp
  then have w_big: "2 ^ (53 - j) \<le> w"
    by (simp only: w_def)
  have w_pos: "0 < w"
    by (simp add: w_def)
  have result: "round64 n d = Float v w"
  proof -
    have "round64 n d =
        (if 0 \<le> e
         then (let v = round_half_even n (d * 2 ^ nat e) * 2 ^ nat e
               in if 2 ^ 1024 \<le> v then Inf else Float v 1)
         else Float (round_half_even (n * 2 ^ nat (- e)) d) (2 ^ nat (- e)))"
      unfolding round64_def e_def fl_def k_def Let_def using False by (simp only: if_False)
    with e_neg show ?thesis
      by (simp only: v_def w_def not_le [symmetric] if_False)
  qed
  from round_half_even_near [OF d, of "n * w"]
  have near: "2 * (v * d) \<le> 2 * (n * w) + d" "2 * (n * w) \<le> 2 * (v * d) + d"
    by (simp_all add: v_def)
  have half: "\<bar>real v * real d - real n * real w\<bar> \<le> real d / 2"
  proof -
    from near have "real (2 * (v * d)) \<le> real (2 * (n * w) + d)"
      and "real (2 * (n * w)) \<le> real (2 * (v * d) + d)"
      by (simp_all only: of_nat_le_iff)
    then have "2 * (real v * real d) \<le> 2 * (real n * real w) + real d"
      and "2 * (real n * real w) \<le> 2 * (real v * real d) + real d"
      by simp_all
    then show ?thesis
      by linarith
  qed
  have pos: "0 < real w * real d"
    using d w_pos by simp
  have "real v / real w - real n / real d
      = (real v * real d - real n * real w) / (real w * real d)"
    using d w_pos by (simp add: field_simps)
  then have "\<bar>real v / real w - real n / real d\<bar>
      = \<bar>real v * real d - real n * real w\<bar> / (real w * real d)"
    using pos by (simp only: abs_divide abs_of_pos)
  also have "\<dots> \<le> (real d / 2) / (real w * real d)"
    using half pos by (intro divide_right_mono) simp_all
  also have "\<dots> = 1 / (2 * real w)"
    using d by (simp add: field_simps)
  also have "\<dots> \<le> 1 / (2 * 2 ^ (53 - j))"
  proof -
    from w_big have "real (2 ^ (53 - j)) \<le> real w"
      by (simp only: of_nat_le_iff)
    then have "(2::real) ^ (53 - j) \<le> real w"
      by simp
    then show ?thesis
      by (simp add: frac_le)
  qed
  also have "(2::real) * 2 ^ (53 - j) = 2 ^ (54 - j)"
  proof -
    from j have "54 - j = Suc (53 - j)"
      by simp
    then show ?thesis
      by simp
  qed
  finally have "\<bar>real v / real w - real n / real d\<bar> \<le> 1 / 2 ^ (54 - j)" .
  with result w_pos show ?thesis
    by blast
qed

lemma round_half_even_real:
  assumes "0 < w"
  shows "\<bar>real (round_half_even v w) - real v / real w\<bar> \<le> 1 / 2"
proof -
  define t where "t = round_half_even v w"
  from round_half_even_near [OF assms, of v]
  have "real (2 * (t * w)) \<le> real (2 * v + w)" and "real (2 * v) \<le> real (2 * (t * w) + w)"
    by (simp_all only: of_nat_le_iff t_def)
  then have "2 * (real t * real w) \<le> 2 * real v + real w"
    and "2 * real v \<le> 2 * (real t * real w) + real w"
    by simp_all
  then have half: "\<bar>real t * real w - real v\<bar> \<le> real w / 2"
    by linarith
  have pos: "0 < real w"
    using assms by simp
  have "real t - real v / real w = (real t * real w - real v) / real w"
    using assms by (simp add: field_simps)
  then have "\<bar>real t - real v / real w\<bar> = \<bar>real t * real w - real v\<bar> / real w"
    using pos by (simp only: abs_divide abs_of_pos)
  also have "\<dots> \<le> (real w / 2) / real w"
    using half pos by (intro divide_right_mono) simp_all
  also have "\<dots> = 1 / 2"
    using assms by simp
  finally show ?thesis
    by (simp only: t_def)
qed

lemma percent_near:
  assumes le: "a \<le> b" and b: "0 < b" "b < 2 ^ 53"
  shows "\<exists>v w. times_100 (true_divide a b) = Float v w \<and> 0 < w
           \<and> \<bar>real v / real w - 100 * real a / real b\<bar> \<le> 1 / 2 ^ 45"
proof -
  from le b have a: "a < 2 ^ 53"
    by linarith
  from b a have divide: "true_divide a b = round64 a b"
    by (simp add: true_divide_def nearest64_exact)
  from le b have "a < b * 2 ^ 1"
    by simp
  from round64_near [OF b(1) this] obtain v1 w1 where
    first: "round64 a b = Float v1 w1" "0 < w1"
      "\<bar>real v1 / real w1 - real a / real b\<bar> \<le> 1 / 2 ^ 53"
    by auto
  have "real a / real b \<le> 1"
    using le b by simp
  with first(3) have "real v1 / real w1 \<le> 1 + 1 / 2 ^ 53"
    by linarith
  then have "real v1 \<le> (1 + 1 / 2 ^ 53) * real w1"
    using first(2) by (simp add: pos_divide_le_eq)
  then have "real v1 * 100 < real w1 * 2 ^ 7"
    using first(2) by (simp add: algebra_simps)
  then have "real (v1 * 100) < real (w1 * 2 ^ 7)"
    by simp
  then have "v1 * 100 < w1 * 2 ^ 7"
    by (simp only: of_nat_less_iff)
  from round64_near [OF first(2) this] obtain v2 w2 where
    second: "round64 (v1 * 100) w1 = Float v2 w2" "0 < w2"
      "\<bar>real v2 / real w2 - real (v1 * 100) / real w1\<bar> \<le> 1 / 2 ^ 47"
    by auto
  have result: "times_100 (true_divide a b) = Float v2 w2"
    by (simp add: divide first(1) times_100_def second(1))
  have "real (v1 * 100) / real w1 - 100 * real a / real b
      = 100 * (real v1 / real w1 - real a / real b)"
    by simp
  then have "\<bar>real (v1 * 100) / real w1 - 100 * real a / real b\<bar>
      = 100 * \<bar>real v1 / real w1 - real a / real b\<bar>"
    by (simp only: abs_mult abs_numeral)
  also have "\<dots> \<le> 100 * (1 / 2 ^ 53)"
    using first(3) by simp
  finally have "\<bar>real (v1 * 100) / real w1 - 100 * real a / real b\<bar> \<le> 100 / 2 ^ 53"
    by simp
  with second(3) have "\<bar>real v2 / real w2 - 100 * real a / real b\<bar>
      \<le> 1 / 2 ^ 47 + 100 / 2 ^ 53"
    by linarith
  also have "\<dots> \<le> 1 / (2::real) ^ 45"
    by simp
  finally show ?thesis
    using result second(2) by blast
qed

section \<open>Facts about the largest counts\<close>

lemma sorted_wrt_sort_values_False:
  "sorted_wrt (\<lambda>a b. snd b \<le> snd a) (sort_values False kvs)"
proof -
  have "sorted (map (\<lambda>kv. - int (snd kv)) (sort_values False kvs))"
    by (simp add: sort_values_def)
  then show ?thesis
    by (simp add: sorted_map)
qed

lemma sorted_wrt_value_counts: "sorted_wrt (\<lambda>a b. snd b \<le> snd a) (value_counts cells)"
  by (simp only: value_counts_def Let_def sorted_wrt_sort_values_False)

lemma value_counts_member:
  "((k, c) \<in> set (value_counts cells)) = (Some k \<in> set cells \<and> c = count_list cells (Some k))"
  by (auto simp: set_value_counts set_dropna count_dropna)

lemma count_list_pos: "x \<in> set xs \<Longrightarrow> 0 < count_list xs x"
  by (induction xs) auto

lemma head_sorted_above:
  assumes "sorted_wrt (\<lambda>a b. snd b \<le> snd a) kvs"
    and "x \<in> set (head n kvs)" and "y \<in> set kvs" and "y \<notin> set (head n kvs)"
  shows "snd y \<le> snd x"
proof -
  have "kvs = take n kvs @ drop n kvs"
    by simp
  with assms(1) have "sorted_wrt (\<lambda>a b. snd b \<le> snd a) (take n kvs @ drop n kvs)"
    by simp
  then have order: "\<forall>a\<in>set (take n kvs). \<forall>b\<in>set (drop n kvs). snd b \<le> snd a"
    by (simp only: sorted_wrt_append) blast
  have "set kvs = set (take n kvs) \<union> set (drop n kvs)"
    by (metis append_take_drop_id set_append)
  with assms(3,4) have "y \<in> set (drop n kvs)"
    by (simp add: head_def)
  with order assms(2) show ?thesis
    by (simp add: head_def)
qed

lemma top_member:
  assumes "(k, c) \<in> set (sort_values True (head n (value_counts cells)))"
  shows "Some k \<in> set cells \<and> c = count_list cells (Some k) \<and> 0 < c"
proof -
  from assms have "(k, c) \<in> set (take n (value_counts cells))"
    by (simp only: set_sort_values head_def)
  then have "(k, c) \<in> set (value_counts cells)"
    by (rule in_set_takeD)
  then have "Some k \<in> set cells" "c = count_list cells (Some k)"
    by (simp_all only: value_counts_member)
  with count_list_pos [of "Some k" cells] show ?thesis
    by simp
qed

lemma top_distinct: "distinct (map fst (sort_values True (head n (value_counts cells))))"
proof -
  have "distinct (take n (map fst (value_counts cells)))"
    by (rule distinct_take) (rule distinct_value_counts)
  then show ?thesis
    by (simp only: map_fst_sort_values_distinct head_def take_map)
qed

lemma top_length:
  "length (sort_values True (head n (value_counts cells))) = min n (card {k. Some k \<in> set cells})"
  by (simp add: length_sort_values head_def length_value_counts set_dropna min.commute)

lemma top_sorted: "sorted (map snd (sort_values True (head n (value_counts cells))))"
  by (rule sorted_sort_values_True)

lemma top_largest:
  assumes "Some k \<in> set cells"
    and "k \<notin> fst ` set (sort_values True (head n (value_counts cells)))"
    and "kv \<in> set (sort_values True (head n (value_counts cells)))"
  shows "count_list cells (Some k) \<le> snd kv"
proof -
  let ?y = "(k, count_list cells (Some k))"
  from assms(1) have in_counts: "?y \<in> set (value_counts cells)"
    by (simp only: value_counts_member simp_thms)
  have "?y \<notin> set (head n (value_counts cells))"
  proof
    assume "?y \<in> set (head n (value_counts cells))"
    then have "fst ?y \<in> fst ` set (head n (value_counts cells))"
      by (rule imageI)
    with assms(2) show False
      by (simp add: set_sort_values)
  qed
  moreover from assms(3) have "kv \<in> set (head n (value_counts cells))"
    by (simp only: set_sort_values)
  ultimately have "snd ?y \<le> snd kv"
    using sorted_wrt_value_counts in_counts by (intro head_sorted_above [of "value_counts cells" kv n ?y])
  then show ?thesis
    by simp
qed

lemma sum_list_take_le: "sum_list (take n (xs::nat list)) \<le> sum_list xs"
proof -
  have "sum_list xs = sum_list (take n xs) + sum_list (drop n xs)"
    by (metis append_take_drop_id sum_list_append)
  then show ?thesis
    by simp
qed

lemma top_sum_le:
  "values_sum (sort_values True (head n (value_counts cells))) \<le> length (dropna cells)"
proof -
  have "values_sum (sort_values True (head n (value_counts cells)))
      = sum_list (take n (map snd (value_counts cells)))"
    by (simp add: values_sum_sort_values head_def) (simp add: values_sum_def take_map)
  also have "\<dots> \<le> sum_list (map snd (value_counts cells))"
    by (rule sum_list_take_le)
  also have "\<dots> = length (dropna cells)"
    using values_sum_value_counts [of cells] by (simp add: values_sum_def)
  finally show ?thesis .
qed

lemma top_sum_all:
  assumes "card {k. Some k \<in> set cells} \<le> n"
  shows "values_sum (sort_values True (head n (value_counts cells))) = length (dropna cells)"
proof -
  from assms have "length (value_counts cells) \<le> n"
    by (simp add: length_value_counts set_dropna)
  then have "head n (value_counts cells) = value_counts cells"
    by (simp add: head_def)
  then show ?thesis
    by (simp add: values_sum_sort_values values_sum_value_counts)
qed

section \<open>Facts about splitting and stripping\<close>

lemma split_not_Nil: "split sep s \<noteq> []"
  by (induction s) (auto split: list.splits)

lemma split_pieces: "w \<in> set (split sep s) \<Longrightarrow> sep \<notin> set w"
proof (induction s arbitrary: w)
  case Nil
  then show ?case
    by simp
next
  case (Cons c cs)
  show ?case
  proof (cases "c = sep")
    case True
    with Cons show ?thesis
      by auto
  next
    case False
    obtain v vs where vs: "split sep cs = v # vs"
      using split_not_Nil [of sep cs] by (cases "split sep cs") auto
    with False Cons.prems have "w = c # v \<or> w \<in> set vs"
      by simp
    with False vs Cons.IH [of v] Cons.IH [of w] show ?thesis
      by auto
  qed
qed

lemma join_split: "join [sep] (split sep s) = s"
proof (induction s)
  case Nil
  show ?case
    by simp
next
  case (Cons c cs)
  obtain v vs where vs: "split sep cs = v # vs"
    using split_not_Nil [of sep cs] by (cases "split sep cs") auto
  show ?case
  proof (cases "c = sep")
    case True
    with Cons vs show ?thesis
      by simp
  next
    case False
    with Cons vs show ?thesis
      by (cases vs) simp_all
  qed
qed

lemma rev_dropWhile_decomp: "xs = rev (dropWhile P (rev xs)) @ rev (takeWhile P (rev xs))"
proof -
  have "rev (dropWhile P (rev xs)) @ rev (takeWhile P (rev xs))
      = rev (takeWhile P (rev xs) @ dropWhile P (rev xs))"
    by (simp only: rev_append)
  also have "\<dots> = rev (rev xs)"
    by (simp only: takeWhile_dropWhile_id)
  also have "\<dots> = xs"
    by simp
  finally show ?thesis
    by (rule sym)
qed

lemma strip_frame:
  "\<exists>a b. w = a @ strip L w @ b \<and> (\<forall>c\<in>set a. isspace L c) \<and> (\<forall>c\<in>set b. isspace L c)"
proof -
  let ?a = "takeWhile (isspace L) w"
  let ?m = "dropWhile (isspace L) w"
  let ?b = "rev (takeWhile (isspace L) (rev ?m))"
  have "?m = strip L w @ ?b"
    unfolding strip_def by (rule rev_dropWhile_decomp)
  then have "?a @ ?m = ?a @ strip L w @ ?b"
    by (rule arg_cong)
  then have "w = ?a @ strip L w @ ?b"
    by (simp only: takeWhile_dropWhile_id)
  moreover have "\<forall>c\<in>set ?a. isspace L c"
    by (auto dest: set_takeWhileD)
  moreover have "\<forall>c\<in>set ?b. isspace L c"
    by (auto dest: set_takeWhileD)
  ultimately show ?thesis
    by blast
qed

lemma strip_ends:
  assumes "strip L w \<noteq> []"
  shows "\<not> isspace L (hd (strip L w)) \<and> \<not> isspace L (last (strip L w))"
proof -
  let ?m = "dropWhile (isspace L) w"
  let ?r = "dropWhile (isspace L) (rev ?m)"
  from assms have r: "?r \<noteq> []"
    by (simp add: strip_def)
  then have "\<not> isspace L (hd ?r)"
    by (rule hd_dropWhile)
  with r have last: "\<not> isspace L (last (strip L w))"
    by (simp add: strip_def last_rev)
  have m: "?m \<noteq> []"
  proof
    assume "?m = []"
    then have "?r = []"
      by (simp only: rev.simps(1) dropWhile.simps(1))
    with r show False
      by (rule notE)
  qed
  then have first: "\<not> isspace L (hd ?m)"
    by (rule hd_dropWhile)
  have "?m = strip L w @ rev (takeWhile (isspace L) (rev ?m))"
    unfolding strip_def by (rule rev_dropWhile_decomp)
  then have "hd ?m = hd (strip L w @ rev (takeWhile (isspace L) (rev ?m)))"
    by (rule arg_cong)
  also have "\<dots> = hd (strip L w)"
    using assms by (rule hd_append2)
  finally have "hd ?m = hd (strip L w)" .
  with first last show ?thesis
    by simp
qed

section \<open>Numeric extraction\<close>

lemma str_extract_None: "(str_extract L s = None) = (\<forall>c\<in>set s. \<not> isdigit L c)"
proof (cases "dropWhile (\<lambda>c. \<not> isdigit L c) s")
  case Nil
  have "str_extract L s = None"
    unfolding str_extract_def Nil by simp
  moreover have "\<forall>c\<in>set s. \<not> isdigit L c"
    using Nil by simp
  ultimately show ?thesis
    by simp
next
  case (Cons d ds)
  then have "d \<in> set s" and "isdigit L d"
    using set_dropWhileD [of d "\<lambda>c. \<not> isdigit L c" s] hd_dropWhile [of "\<lambda>c. \<not> isdigit L c" s]
    by auto
  moreover have "str_extract L s \<noteq> None"
    unfolding str_extract_def Cons by simp
  ultimately show ?thesis
    by blast
qed














section \<open>The empty table\<close>

lemma ins_no_rows: "ins L (clean L to_datetime \<lparr>columns = cols, rows = []\<rparr>) = []"
  by (simp add: ins_def ins_type_def ins_countries_def ins_growth_def ins_duration_def
      type_counts_def top_countries_def countries_def year_counts_def movies_def
      value_counts_def dropna_def sort_values_def head_def groupby_count_def
      split_explode_strip_def clean_def)

text \<open>
  C3. On a table with a header and no record, whatever the header, none of the four
  sentences is produced. The text written to \<open>insights.txt\<close> is then the header line, a
  line break and the bullet marker \<open>"- "\<close> that the source puts before the first
  sentence: it is not the header line alone.
\<close>

theorem empty_table_insights:
  "ins L (clean L to_datetime \<lparr>columns = cols, rows = []\<rparr>) = []
   \<and> insights_text [] = ascii ''Key Insights:'' @ [10] @ ascii ''- ''
   \<and> insights_text [] \<noteq> ascii ''Key Insights:''
   \<and> insights_text [] \<noteq> ascii ''Key Insights:'' @ [10]
   \<and> run L to_datetime \<lparr>columns = all_columns, rows = []\<rparr>
       = Inr \<lparr>figures = map ascii [''01_movies_vs_tv.png'', ''02_top_countries.png'',
                         ''03_growth_by_year_added.png'', ''04_top_genres.png'',
                         ''05_movie_duration_hist.png'', ''06_movie_duration_by_decade.png''],
              insights_txt = ascii ''Key Insights:'' @ [10] @ ascii ''- ''\<rparr>"
proof (intro conjI)
  show "ins L (clean L to_datetime \<lparr>columns = cols, rows = []\<rparr>) = []"
    by (rule ins_no_rows)
  show written: "insights_text [] = ascii ''Key Insights:'' @ [10] @ ascii ''- ''"
    by (simp add: insights_text_def)
  show "insights_text [] \<noteq> ascii ''Key Insights:''"
    by (simp add: insights_text_def ascii_def)
  show "insights_text [] \<noteq> ascii ''Key Insights:'' @ [10]"
    by (simp add: insights_text_def ascii_def)
  have "set required_columns \<subseteq> set (columns \<lparr>columns = all_columns, rows = []\<rparr>)"
    by (simp add: required_all_columns)
  from run_Inr [OF this, of L to_datetime]
  have "run L to_datetime \<lparr>columns = all_columns, rows = []\<rparr>
      = Inr \<lparr>figures = saved_plots L (clean L to_datetime \<lparr>columns = all_columns, rows = []\<rparr>),
             insights_txt =
               insights_text (ins L (clean L to_datetime \<lparr>columns = all_columns, rows = []\<rparr>))\<rparr>" .
  moreover have "saved_plots L (clean L to_datetime \<lparr>columns = all_columns, rows = []\<rparr>)
      = map ascii [''01_movies_vs_tv.png'', ''02_top_countries.png'',
         ''03_growth_by_year_added.png'', ''04_top_genres.png'',
         ''05_movie_duration_hist.png'', ''06_movie_duration_by_decade.png'']"
    by (simp add: saved_plots_def tv_def clean_def)
  ultimately show "run L to_datetime \<lparr>columns = all_columns, rows = []\<rparr>
       = Inr \<lparr>figures = map ascii [''01_movies_vs_tv.png'', ''02_top_countries.png'',
                         ''03_growth_by_year_added.png'', ''04_top_genres.png'',
                         ''05_movie_duration_hist.png'', ''06_movie_duration_by_decade.png''],
              insights_txt = ascii ''Key Insights:'' @ [10] @ ascii ''- ''\<rparr>"
    by (simp only: ins_no_rows written)
qed

section \<open>The third sentence\<close>

lemma year_counts_complete:
  "year_counts (clean L example_dates dated_complete) = [(2019, 2), (2020, 1)]"
  by (simp add: year_counts_def groupby_count_def clean_def clean_row_def dated_complete_def
      added_2019_def added_2020_def blank_def all_columns_def example_dates_def ascii_def)

lemma year_counts_with_gap:
  "year_counts (clean L example_dates dated_with_gap) = [(2019, 2), (2020, 1)]"
  by (simp add: year_counts_def groupby_count_def clean_def clean_row_def dated_with_gap_def
      added_2019_def added_2020_def added_unknown_def blank_def all_columns_def
      example_dates_def ascii_def)

lemma one_half: "format_f0 (times_100 (true_divide 1 2)) = ascii ''50''"
proof -
  have "true_divide 1 2 = Float 4503599627370496 9007199254740992"
    by (simp add: true_divide_def nearest64_def round64_def bitlen.simps round_half_even_def
        Let_def)
  moreover have "times_100 (Float 4503599627370496 9007199254740992)
      = Float 7036874417766400 140737488355328"
    by (simp add: times_100_def round64_def bitlen.simps round_half_even_def Let_def)
  moreover have "format_f0 (Float 7036874417766400 140737488355328) = ascii ''50''"
    by (simp add: format_f0_def round_half_even_def Let_def str_nat.simps ascii_def)
  ultimately show ?thesis
    by simp
qed

lemma one_half_Suc: "format_f0 (times_100 (true_divide (Suc 0) 2)) = ascii ''50''"
  using one_half by simp

lemma str_nat_2019: "str_nat 2019 = ascii ''2019''"
  by (simp add: str_nat.simps ascii_def)

lemma ins_growth_complete:
  "ins_growth (clean L example_dates dated_complete)
     = [ascii ''Catalog peak additions around 2019; latest year is ~50% of peak.'']"
proof -
  have "idxmax [(2019::nat, 2::nat), (2020, 1)] = Some 2019"
    by (simp add: idxmax_def values_max_def)
  moreover have "values_max [(2019::nat, 2::nat), (2020, 1)] = 2"
    by (simp add: values_max_def)
  moreover have "values_last [(2019::nat, 2::nat), (2020, 1)] = 1"
    by (simp add: values_last_def)
  moreover have "str_year (clean L example_dates dated_complete) 2019 = ascii ''2019''"
    by (simp add: str_year_def str_nat_2019 clean_def clean_row_def dated_complete_def
        added_2019_def added_2020_def blank_def all_columns_def example_dates_def ascii_def)
  ultimately have "ins_growth (clean L example_dates dated_complete)
      = [ascii ''Catalog peak additions around '' @ ascii ''2019'' @ ascii ''; latest year is ~''
           @ ascii ''50'' @ ascii ''% of peak.'']"
    by (simp add: ins_growth_def year_counts_complete one_half_Suc)
  then show ?thesis
    by (simp add: ascii_def)
qed

lemma ins_growth_with_gap:
  "ins_growth (clean L example_dates dated_with_gap)
     = [ascii ''Catalog peak additions around 2019.0; latest year is ~50% of peak.'']"
proof -
  have "idxmax [(2019::nat, 2::nat), (2020, 1)] = Some 2019"
    by (simp add: idxmax_def values_max_def)
  moreover have "values_max [(2019::nat, 2::nat), (2020, 1)] = 2"
    by (simp add: values_max_def)
  moreover have "values_last [(2019::nat, 2::nat), (2020, 1)] = 1"
    by (simp add: values_last_def)
  moreover have "str_year (clean L example_dates dated_with_gap) 2019 = ascii ''2019.0''"
    by (simp add: str_year_def str_nat_2019 clean_def clean_row_def dated_with_gap_def
        added_2019_def added_2020_def added_unknown_def blank_def all_columns_def
        example_dates_def)
       (simp add: ascii_def)
  ultimately have "ins_growth (clean L example_dates dated_with_gap)
      = [ascii ''Catalog peak additions around '' @ ascii ''2019.0''
           @ ascii ''; latest year is ~'' @ ascii ''50'' @ ascii ''% of peak.'']"
    by (simp add: ins_growth_def year_counts_with_gap one_half_Suc)
  then show ?thesis
    by (simp add: ascii_def)
qed

lemma year_counts_keys:
  "map fst (year_counts df)
     = sort (remdups (map (\<lambda>r. the (year_added r)) (filter (\<lambda>r. year_added r \<noteq> None) (rows df))))"
  by (simp add: year_counts_def groupby_count_def comp_def)

lemma sorted_year_counts: "sorted (map fst (year_counts df))"
  by (simp only: year_counts_keys sorted_sort)

lemma distinct_year_counts: "distinct (map fst (year_counts df))"
  by (simp only: year_counts_keys distinct_sort distinct_remdups)

lemma year_group:
  "filter (\<lambda>r. the (year_added r) = y \<and> title r \<noteq> None)
       (filter (\<lambda>r. year_added r \<noteq> None) rs)
     = filter (\<lambda>r. year_added r = Some y \<and> title r \<noteq> None) rs"
  by (induction rs) auto

lemma set_year_counts:
  "set (year_counts df) =
     (\<lambda>y. (y, length (filter (\<lambda>r. year_added r = Some y \<and> title r \<noteq> None) (rows df))))
       ` {y. \<exists>r\<in>set (rows df). year_added r = Some y}"
proof -
  have keys: "(\<lambda>r. the (year_added r)) ` {r \<in> set (rows df). year_added r \<noteq> None}
      = {y. \<exists>r\<in>set (rows df). year_added r = Some y}"
    by force
  have "year_counts df =
      map (\<lambda>y. (y, length (filter (\<lambda>r. year_added r = Some y \<and> title r \<noteq> None) (rows df))))
        (sort (remdups (map (\<lambda>r. the (year_added r))
                         (filter (\<lambda>r. year_added r \<noteq> None) (rows df)))))"
    by (simp only: year_counts_def groupby_count_def year_group)
  then show ?thesis
    by (simp only: set_map set_sort set_remdups set_filter keys)
qed

lemma sorted_le_last: "sorted xs \<Longrightarrow> x \<in> set xs \<Longrightarrow> x \<le> last xs"
  by (induction xs rule: rev_induct) (auto simp: sorted_append)

lemma idxmax_first:
  assumes sorted: "sorted (map fst kvs)"
    and peak: "idxmax kvs = Some k"
    and other: "(k', values_max kvs) \<in> set kvs"
  shows "k \<le> k'"
proof -
  from peak obtain kv where found: "find (\<lambda>kv. snd kv = values_max kvs) kvs = Some kv"
    and k: "k = fst kv"
    by (auto simp: idxmax_def)
  from found obtain i where i: "i < length kvs" "kv = kvs ! i"
    "\<forall>j<i. snd (kvs ! j) \<noteq> values_max kvs"
    by (auto simp: find_Some_iff)
  from other obtain j where j: "j < length kvs" "kvs ! j = (k', values_max kvs)"
    by (auto simp: in_set_conv_nth)
  with i(3) have "i \<le> j"
    by (metis not_le_imp_less snd_conv)
  with sorted j(1) have "map fst kvs ! i \<le> map fst kvs ! j"
    by (simp add: sorted_iff_nth_mono del: nth_map)
  with i(1,2) j k show ?thesis
    by simp
qed

lemma values_last_latest:
  assumes "sorted (map fst kvs)" "kvs \<noteq> []"
  shows "\<exists>y. (y, values_last kvs) \<in> set kvs \<and> (\<forall>kv\<in>set kvs. fst kv \<le> y)"
proof -
  from assms(2) have last: "values_last kvs = snd (last kvs)"
    by (cases kvs rule: rev_cases) (simp_all add: values_last_def)
  from assms(2) have member: "last kvs \<in> set kvs"
    by simp
  have "\<forall>kv\<in>set kvs. fst kv \<le> fst (last kvs)"
  proof
    fix kv assume "kv \<in> set kvs"
    then have "fst kv \<in> set (map fst kvs)"
      by simp
    with assms(1) have "fst kv \<le> last (map fst kvs)"
      by (rule sorted_le_last)
    with assms(2) show "fst kv \<le> fst (last kvs)"
      by (simp add: last_map)
  qed
  moreover from member last have "(fst (last kvs), values_last kvs) \<in> set kvs"
    by simp
  ultimately show ?thesis
    by blast
qed

lemma values_last_le_max: "values_last kvs \<le> values_max kvs"
proof (cases kvs rule: rev_cases)
  case Nil
  then show ?thesis
    by (simp add: values_last_def)
next
  case (snoc kvs' kv)
  then have "values_last kvs = snd kv" "kv \<in> set kvs"
    by (simp_all add: values_last_def)
  with values_max_upper [of kv kvs] show ?thesis
    by simp
qed

lemma format_f0_near:
  assumes "0 < w"
  shows "\<exists>t. format_f0 (Float v w) = str_nat t \<and> \<bar>real t - real v / real w\<bar> \<le> 1 / 2"
  using round_half_even_real [OF assms, of v] by (auto simp: format_f0_def)

lemma percent_text0_near:
  assumes "a \<le> b" "0 < b" "b < 2 ^ 53"
  shows "\<exists>t. format_f0 (times_100 (true_divide a b)) = str_nat t
           \<and> \<bar>real t - 100 * real a / real b\<bar> \<le> 1 / 2 + 1 / 2 ^ 45"
proof -
  from percent_near [OF assms] obtain v w where
    vw: "times_100 (true_divide a b) = Float v w" "0 < w"
      "\<bar>real v / real w - 100 * real a / real b\<bar> \<le> 1 / 2 ^ 45"
    by blast
  from format_f0_near [OF vw(2), of v] obtain t where
    t: "format_f0 (Float v w) = str_nat t" "\<bar>real t - real v / real w\<bar> \<le> 1 / 2"
    by blast
  from t(2) vw(3) have "\<bar>real t - 100 * real a / real b\<bar> \<le> 1 / 2 + 1 / 2 ^ 45"
    by linarith
  with t(1) vw(1) show ?thesis
    by auto
qed

lemma ins_growth_sentence:
  assumes "1 < length (year_counts df)"
  shows "\<exists>peak. idxmax (year_counts df) = Some peak
           \<and> (peak, values_max (year_counts df)) \<in> set (year_counts df)
           \<and> ins_growth df =
               [ascii ''Catalog peak additions around '' @ str_year df peak
                  @ ascii ''; latest year is ~''
                  @ format_f0 (times_100 (true_divide (values_last (year_counts df))
                                 (values_max (year_counts df))))
                  @ ascii ''% of peak.'']"
proof -
  from assms have "year_counts df \<noteq> []"
    by auto
  from idxmax_Some [OF this] obtain peak where
    peak: "idxmax (year_counts df) = Some peak"
      "(peak, values_max (year_counts df)) \<in> set (year_counts df)"
    by blast
  from assms peak(1) have "ins_growth df =
      [ascii ''Catalog peak additions around '' @ str_year df peak
         @ ascii ''; latest year is ~''
         @ format_f0 (times_100 (true_divide (values_last (year_counts df))
                        (values_max (year_counts df))))
         @ ascii ''% of peak.'']"
    by (simp add: ins_growth_def Let_def)
  with peak show ?thesis
    by blast
qed

text \<open>
  C4. When the yearly series has more than one year, the third sentence is
  \<open>"Catalog peak additions around <peakYear>; latest year is ~<pct>% of peak."\<close>: the
  year named is the earliest of those with the largest count, and \<open><pct>\<close> is the float
  \<open>latest / largest * 100\<close> printed without decimals, which is within \<open>0.5 + 2^-45\<close> of
  the exact percentage while the largest count is positive and below \<open>2^53\<close>. With one
  year or none the sentence is left out. The year is printed as the label of the series
  is: as an integer when every record has a date, and as a float as soon as one record
  has none. With three records added in 2019, 2020 and 2019 the sentence names \<open>2019\<close>;
  with a fourth record whose date is missing it names \<open>2019.0\<close>.
\<close>

theorem growth_sentence_prints_float_year:
  "(1 < length (year_counts df) \<longrightarrow>
      (\<exists>peak. (peak, values_max (year_counts df)) \<in> set (year_counts df)
         \<and> (\<forall>kv\<in>set (year_counts df). snd kv \<le> values_max (year_counts df))
         \<and> (\<forall>y. (y, values_max (year_counts df)) \<in> set (year_counts df) \<longrightarrow> peak \<le> y)
         \<and> ins_growth df =
             [ascii ''Catalog peak additions around '' @ str_year df peak
                @ ascii ''; latest year is ~''
                @ format_f0 (times_100 (true_divide (values_last (year_counts df))
                               (values_max (year_counts df))))
                @ ascii ''% of peak.'']))
   \<and> (length (year_counts df) \<le> 1 \<longrightarrow> ins_growth df = [])
   \<and> (0 < values_max (year_counts df) \<and> values_max (year_counts df) < 2 ^ 53 \<longrightarrow>
        (\<exists>t. format_f0 (times_100 (true_divide (values_last (year_counts df))
                        (values_max (year_counts df)))) = str_nat t
           \<and> \<bar>real t - 100 * real (values_last (year_counts df))
                            / real (values_max (year_counts df))\<bar>
               \<le> 1 / 2 + 1 / 2 ^ 45))
   \<and> (year_counts df \<noteq> [] \<longrightarrow>
        (\<exists>y. (y, values_last (year_counts df)) \<in> set (year_counts df)
           \<and> (\<forall>kv\<in>set (year_counts df). fst kv \<le> y)))
   \<and> set (year_counts df) =
         (\<lambda>y. (y, length (filter (\<lambda>r. year_added r = Some y \<and> title r \<noteq> None) (rows df))))
           ` {y. \<exists>r\<in>set (rows df). year_added r = Some y}
   \<and> str_year df y =
         (if \<exists>r\<in>set (rows df). year_added r = None then str_nat y @ ascii ''.0''
          else str_nat y)
   \<and> ins_growth (clean L example_dates dated_complete)
       = [ascii ''Catalog peak additions around 2019; latest year is ~50% of peak.'']
   \<and> ins_growth (clean L example_dates dated_with_gap)
       = [ascii ''Catalog peak additions around 2019.0; latest year is ~50% of peak.'']"
proof (intro conjI impI)
  assume "1 < length (year_counts df)"
  from ins_growth_sentence [OF this] obtain peak where
    peak: "idxmax (year_counts df) = Some peak"
      "(peak, values_max (year_counts df)) \<in> set (year_counts df)"
      "ins_growth df =
         [ascii ''Catalog peak additions around '' @ str_year df peak
            @ ascii ''; latest year is ~''
            @ format_f0 (times_100 (true_divide (values_last (year_counts df))
                           (values_max (year_counts df))))
            @ ascii ''% of peak.'']"
    by blast
  have "\<forall>kv\<in>set (year_counts df). snd kv \<le> values_max (year_counts df)"
    by (simp add: values_max_upper)
  moreover have "\<forall>y. (y, values_max (year_counts df)) \<in> set (year_counts df) \<longrightarrow> peak \<le> y"
    using idxmax_first [OF sorted_year_counts peak(1)] by blast
  ultimately show "\<exists>peak. (peak, values_max (year_counts df)) \<in> set (year_counts df)
         \<and> (\<forall>kv\<in>set (year_counts df). snd kv \<le> values_max (year_counts df))
         \<and> (\<forall>y. (y, values_max (year_counts df)) \<in> set (year_counts df) \<longrightarrow> peak \<le> y)
         \<and> ins_growth df =
             [ascii ''Catalog peak additions around '' @ str_year df peak
                @ ascii ''; latest year is ~''
                @ format_f0 (times_100 (true_divide (values_last (year_counts df))
                               (values_max (year_counts df))))
                @ ascii ''% of peak.'']"
    using peak(2,3) by blast
next
  assume "length (year_counts df) \<le> 1"
  then show "ins_growth df = []"
    by (simp add: ins_growth_def Let_def)
next
  assume "0 < values_max (year_counts df) \<and> values_max (year_counts df) < 2 ^ 53"
  then have "0 < values_max (year_counts df)" "values_max (year_counts df) < 2 ^ 53"
    by simp_all
  with values_last_le_max [of "year_counts df"]
  show "\<exists>t. format_f0 (times_100 (true_divide (values_last (year_counts df))
                        (values_max (year_counts df)))) = str_nat t
           \<and> \<bar>real t - 100 * real (values_last (year_counts df))
                            / real (values_max (year_counts df))\<bar>
               \<le> 1 / 2 + 1 / 2 ^ 45"
    by (rule percent_text0_near)
next
  assume "year_counts df \<noteq> []"
  with sorted_year_counts
  show "\<exists>y. (y, values_last (year_counts df)) \<in> set (year_counts df)
           \<and> (\<forall>kv\<in>set (year_counts df). fst kv \<le> y)"
    by (rule values_last_latest)
next
  show "set (year_counts df) =
         (\<lambda>y. (y, length (filter (\<lambda>r. year_added r = Some y \<and> title r \<noteq> None) (rows df))))
           ` {y. \<exists>r\<in>set (rows df). year_added r = Some y}"
    by (rule set_year_counts)
next
  show "str_year df y =
         (if \<exists>r\<in>set (rows df). year_added r = None then str_nat y @ ascii ''.0''
          else str_nat y)"
    by (simp add: str_year_def)
next
  show "ins_growth (clean L example_dates dated_complete)
       = [ascii ''Catalog peak additions around 2019; latest year is ~50% of peak.'']"
    by (rule ins_growth_complete)
next
  show "ins_growth (clean L example_dates dated_with_gap)
       = [ascii ''Catalog peak additions around 2019.0; latest year is ~50% of peak.'']"
    by (rule ins_growth_with_gap)
qed

theorem growth_sentence_prints_float_year_witness:
  "(\<exists>peak. (peak, values_max (year_counts (clean ascii_only example_dates dated_with_gap)))
        \<in> set (year_counts (clean ascii_only example_dates dated_with_gap))
      \<and> ins_growth (clean ascii_only example_dates dated_with_gap) =
          [ascii ''Catalog peak additions around ''
             @ str_year (clean ascii_only example_dates dated_with_gap) peak
             @ ascii ''; latest year is ~''
             @ format_f0 (times_100 (true_divide
                 (values_last (year_counts (clean ascii_only example_dates dated_with_gap)))
                 (values_max (year_counts (clean ascii_only example_dates dated_with_gap)))))
             @ ascii ''% of peak.''])
   \<and> (\<exists>t. format_f0 (times_100 (true_divide
              (values_last (year_counts (clean ascii_only example_dates dated_with_gap)))
              (values_max (year_counts (clean ascii_only example_dates dated_with_gap)))))
            = str_nat t
       \<and> \<bar>real t
            - 100 * real (values_last (year_counts (clean ascii_only example_dates dated_with_gap)))
                / real (values_max (year_counts (clean ascii_only example_dates dated_with_gap)))\<bar>
           \<le> 1 / 2 + 1 / 2 ^ 45)
   \<and> ins_growth (clean ascii_only example_dates \<lparr>columns = all_columns, rows = [added_2019]\<rparr>) = []
   \<and> ins_growth (clean ascii_only example_dates dated_with_gap)
       = [ascii ''Catalog peak additions around 2019.0; latest year is ~50% of peak.'']"
proof (intro conjI)
  let ?df = "clean ascii_only example_dates dated_with_gap"
  note claim = growth_sentence_prints_float_year [where df = ?df and L = ascii_only]
  have "1 < length (year_counts ?df)"
    by (simp add: year_counts_with_gap)
  then have "\<exists>peak. (peak, values_max (year_counts ?df)) \<in> set (year_counts ?df)
         \<and> (\<forall>kv\<in>set (year_counts ?df). snd kv \<le> values_max (year_counts ?df))
         \<and> (\<forall>y. (y, values_max (year_counts ?df)) \<in> set (year_counts ?df) \<longrightarrow> peak \<le> y)
         \<and> ins_growth ?df =
             [ascii ''Catalog peak additions around '' @ str_year ?df peak
                @ ascii ''; latest year is ~''
                @ format_f0 (times_100 (true_divide (values_last (year_counts ?df))
                               (values_max (year_counts ?df))))
                @ ascii ''% of peak.'']"
    by (rule claim [THEN conjunct1, THEN mp])
  then show "\<exists>peak. (peak, values_max (year_counts ?df)) \<in> set (year_counts ?df)
      \<and> ins_growth ?df =
          [ascii ''Catalog peak additions around '' @ str_year ?df peak
             @ ascii ''; latest year is ~''
             @ format_f0 (times_100 (true_divide (values_last (year_counts ?df))
                 (values_max (year_counts ?df))))
             @ ascii ''% of peak.'']"
    by blast
  have "0 < values_max (year_counts ?df) \<and> values_max (year_counts ?df) < 2 ^ 53"
    by (simp add: year_counts_with_gap values_max_def)
  then show "\<exists>t. format_f0 (times_100 (true_divide (values_last (year_counts ?df))
              (values_max (year_counts ?df)))) = str_nat t
       \<and> \<bar>real t - 100 * real (values_last (year_counts ?df))
                / real (values_max (year_counts ?df))\<bar>
           \<le> 1 / 2 + 1 / 2 ^ 45"
    by (rule claim [THEN conjunct2, THEN conjunct2, THEN conjunct1, THEN mp])
  let ?one = "clean ascii_only example_dates \<lparr>columns = all_columns, rows = [added_2019]\<rparr>"
  have "length (year_counts ?one) \<le> 1"
    by (simp add: year_counts_def groupby_count_def clean_def)
  then show "ins_growth ?one = []"
    by (rule growth_sentence_prints_float_year [where df = ?one,
          THEN conjunct2, THEN conjunct1, THEN mp])
  show "ins_growth ?df
       = [ascii ''Catalog peak additions around 2019.0; latest year is ~50% of peak.'']"
    by (rule claim [THEN conjunct2, THEN conjunct2, THEN conjunct2, THEN conjunct2,
          THEN conjunct2, THEN conjunct2, THEN conjunct2])
qed

section \<open>Top countries\<close>

lemma top_countries_example:
  "top_countries L (clean L to_datetime \<lparr>columns = all_columns, rows = [coproduction, no_country]\<rparr>)
     = [(ascii ''United States'', 1), (ascii ''India'', 1)]"
  by (simp add: top_countries_def countries_def clean_def clean_row_def all_columns_def
      coproduction_def no_country_def blank_def fillna_strip_def split_explode_strip_def
      strip_def isspace_def value_counts_def dropna_def sort_values_def head_def ascii_def)

lemma countries_many:
  "countries L (clean L to_datetime many_countries)
     = map (\<lambda>c. Some [c]) [65, 66, 67, 68, 69, 70, 71, 72, 73, 74, 75,
                             65, 66, 67, 68, 69, 70, 71, 72, 73, 74]"
  by (simp add: countries_def clean_def clean_row_def all_columns_def many_countries_def
      eleven_countries_def ten_countries_def blank_def fillna_strip_def
      split_explode_strip_def strip_def isspace_def ascii_def)

lemma top_countries_many:
  "top_countries L (clean L to_datetime many_countries)
     = map (\<lambda>c. ([c], 2)) [65, 66, 67, 68, 69, 70, 71, 72, 73, 74]"
  by (simp add: top_countries_def countries_many value_counts_def dropna_def sort_values_def
      head_def ascii_def)

lemma known_member:
  "(Some k \<in> set (filter (\<lambda>c. c \<noteq> Some (ascii ''Unknown'')) cells))
     = (Some k \<in> set cells \<and> k \<noteq> ascii ''Unknown'')"
  by auto

lemma top_countries_member:
  assumes "kv \<in> set (top_countries L df)"
  shows "fst kv \<noteq> ascii ''Unknown''
    \<and> snd kv = count_list (countries L df) (Some (fst kv)) \<and> 0 < snd kv"
proof -
  let ?cells = "filter (\<lambda>c. c \<noteq> Some (ascii ''Unknown'')) (countries L df)"
  from assms have "(fst kv, snd kv) \<in> set (sort_values True (head 10 (value_counts ?cells)))"
    by (simp add: top_countries_def)
  from top_member [OF this]
  have facts: "Some (fst kv) \<in> set ?cells" "snd kv = count_list ?cells (Some (fst kv))"
    "0 < snd kv"
    by simp_all
  from facts(1) have known: "fst kv \<noteq> ascii ''Unknown''"
    using known_member [of "fst kv" "countries L df"] by blast
  with facts(2,3) show ?thesis
    by (simp add: count_list_filter)
qed

lemma top_countries_length:
  "length (top_countries L df)
     = min 10 (card {k. Some k \<in> set (countries L df) \<and> k \<noteq> ascii ''Unknown''})"
  by (simp only: top_countries_def top_length known_member)

lemma top_countries_largest:
  assumes "Some k \<in> set (countries L df)" "k \<noteq> ascii ''Unknown''"
    and "k \<notin> fst ` set (top_countries L df)" and "kv \<in> set (top_countries L df)"
  shows "count_list (countries L df) (Some k) \<le> snd kv"
proof -
  let ?cells = "filter (\<lambda>c. c \<noteq> Some (ascii ''Unknown'')) (countries L df)"
  from assms(1,2) have "Some k \<in> set ?cells"
    using known_member [of k "countries L df"] by blast
  moreover from assms(3)
  have "k \<notin> fst ` set (sort_values True (head 10 (value_counts ?cells)))"
    unfolding top_countries_def .
  moreover from assms(4) have "kv \<in> set (sort_values True (head 10 (value_counts ?cells)))"
    unfolding top_countries_def .
  ultimately have "count_list ?cells (Some k) \<le> snd kv"
    by (rule top_largest)
  with assms(2) show ?thesis
    by (simp add: count_list_filter)
qed

text \<open>
  C5. The country cells are split at the commas into pieces without comma that give
  the cell back when joined, and every piece is stripped of the whitespace at its ends:
  one observation per piece. The labels of the top-countries series are different
  tokens other than \<open>"Unknown"\<close>, each with the number of its observations; there are
  ten of them, or as many as there are different tokens when these are fewer; no token
  left out has more observations than one that is kept; and the series is in ascending
  order of the counts. A record \<open>"United States, India"\<close> and a record without country
  give one count to \<open>United States\<close>, one to \<open>India\<close> and nothing else.
\<close>

theorem top_countries_per_token:
  "countries L df =
     concat (map (\<lambda>r. case country r of
                          None \<Rightarrow> [None]
                        | Some s \<Rightarrow> map (\<lambda>w. Some (strip L w)) (split 44 s)) (rows df))
   \<and> (\<forall>w\<in>set (split 44 s). 44 \<notin> set w) \<and> join [44] (split 44 s) = s
   \<and> (\<exists>a b. w = a @ strip L w @ b \<and> (\<forall>c\<in>set a. isspace L c) \<and> (\<forall>c\<in>set b. isspace L c))
   \<and> (strip L w \<noteq> [] \<longrightarrow> \<not> isspace L (hd (strip L w)) \<and> \<not> isspace L (last (strip L w)))
   \<and> (\<forall>kv\<in>set (top_countries L df).
         fst kv \<noteq> ascii ''Unknown''
         \<and> snd kv = count_list (countries L df) (Some (fst kv)) \<and> 0 < snd kv)
   \<and> distinct (map fst (top_countries L df))
   \<and> length (top_countries L df)
       = min 10 (card {k. Some k \<in> set (countries L df) \<and> k \<noteq> ascii ''Unknown''})
   \<and> sorted (map snd (top_countries L df))
   \<and> (\<forall>k. Some k \<in> set (countries L df) \<and> k \<noteq> ascii ''Unknown''
           \<and> k \<notin> fst ` set (top_countries L df) \<longrightarrow>
         (\<forall>kv\<in>set (top_countries L df). count_list (countries L df) (Some k) \<le> snd kv))
   \<and> set (top_countries L (clean L to_datetime
           \<lparr>columns = all_columns, rows = [coproduction, no_country]\<rparr>))
       = {(ascii ''United States'', 1), (ascii ''India'', 1)}"
proof (intro conjI allI impI ballI)
  show "countries L df =
     concat (map (\<lambda>r. case country r of
                          None \<Rightarrow> [None]
                        | Some s \<Rightarrow> map (\<lambda>w. Some (strip L w)) (split 44 s)) (rows df))"
    by (simp add: countries_def split_explode_strip_def comp_def)
next
  fix w' assume "w' \<in> set (split 44 s)"
  then show "44 \<notin> set w'"
    by (rule split_pieces)
next
  show "join [44] (split 44 s) = s"
    by (rule join_split)
next
  show "\<exists>a b. w = a @ strip L w @ b \<and> (\<forall>c\<in>set a. isspace L c) \<and> (\<forall>c\<in>set b. isspace L c)"
    by (rule strip_frame)
next
  assume "strip L w \<noteq> []"
  then show "\<not> isspace L (hd (strip L w))" "\<not> isspace L (last (strip L w))"
    using strip_ends by blast+
next
  fix kv assume "kv \<in> set (top_countries L df)"
  from top_countries_member [OF this]
  show "fst kv \<noteq> ascii ''Unknown''"
    and "snd kv = count_list (countries L df) (Some (fst kv))" and "0 < snd kv"
    by simp_all
next
  show "distinct (map fst (top_countries L df))"
    by (simp only: top_countries_def top_distinct)
next
  show "length (top_countries L df)
       = min 10 (card {k. Some k \<in> set (countries L df) \<and> k \<noteq> ascii ''Unknown''})"
    by (rule top_countries_length)
next
  show "sorted (map snd (top_countries L df))"
    by (simp only: top_countries_def top_sorted)
next
  fix k kv
  assume "Some k \<in> set (countries L df) \<and> k \<noteq> ascii ''Unknown''
           \<and> k \<notin> fst ` set (top_countries L df)"
    and "kv \<in> set (top_countries L df)"
  then show "count_list (countries L df) (Some k) \<le> snd kv"
    using top_countries_largest [of k L df kv] by blast
next
  show "set (top_countries L (clean L to_datetime
           \<lparr>columns = all_columns, rows = [coproduction, no_country]\<rparr>))
       = {(ascii ''United States'', 1), (ascii ''India'', 1)}"
    by (simp only: top_countries_example) simp
qed

theorem top_countries_per_token_witness:
  "44 \<notin> set (ascii '' India'')
   \<and> \<not> isspace ascii_only (hd (strip ascii_only (ascii '' India '')))
   \<and> strip ascii_only (ascii '' India '') = ascii ''India''
   \<and> snd ([74::nat], 2::nat) = count_list (countries ascii_only (clean ascii_only (\<lambda>s. None) many_countries))
                          (Some (fst ([74], 2::nat)))
   \<and> count_list (countries ascii_only (clean ascii_only (\<lambda>s. None) many_countries)) (Some [75])
       \<le> snd ([74::nat], 2::nat)
   \<and> length (top_countries ascii_only (clean ascii_only (\<lambda>s. None) many_countries)) = 10"
proof (intro conjI)
  let ?df = "clean ascii_only (\<lambda>s. None) many_countries"
  note claim = top_countries_per_token [where L = ascii_only and df = ?df
      and s = "ascii ''United States, India''" and w = "ascii '' India ''"]
  note pieces = claim [THEN conjunct2, THEN conjunct1]
  note ends = claim [THEN conjunct2, THEN conjunct2, THEN conjunct2, THEN conjunct2,
      THEN conjunct1]
  note members = claim [THEN conjunct2, THEN conjunct2, THEN conjunct2, THEN conjunct2,
      THEN conjunct2, THEN conjunct1]
  note largest = claim [THEN conjunct2, THEN conjunct2, THEN conjunct2, THEN conjunct2,
      THEN conjunct2, THEN conjunct2, THEN conjunct2, THEN conjunct2, THEN conjunct2,
      THEN conjunct1]
  have stripped: "strip ascii_only (ascii '' India '') = ascii ''India''"
    by (simp add: strip_def isspace_def ascii_def)
  have "ascii '' India'' \<in> set (split 44 (ascii ''United States, India''))"
    by (simp add: ascii_def)
  then show "44 \<notin> set (ascii '' India'')"
    by (rule pieces [THEN bspec])
  have "strip ascii_only (ascii '' India '') \<noteq> []"
    by (simp only: stripped) (simp add: ascii_def)
  then show "\<not> isspace ascii_only (hd (strip ascii_only (ascii '' India '')))"
    by (rule ends [THEN mp, THEN conjunct1])
  show "strip ascii_only (ascii '' India '') = ascii ''India''"
    by (rule stripped)
  have kept: "([74], 2) \<in> set (top_countries ascii_only ?df)"
    by (simp add: top_countries_many)
  then show "snd ([74::nat], 2::nat) = count_list (countries ascii_only ?df) (Some (fst ([74], 2::nat)))"
    by (rule members [THEN bspec, THEN conjunct2, THEN conjunct1])
  have "Some [75] \<in> set (countries ascii_only ?df) \<and> [75] \<noteq> ascii ''Unknown''
      \<and> [75] \<notin> fst ` set (top_countries ascii_only ?df)"
    by (simp add: top_countries_many countries_many ascii_def)
  then have "\<forall>kv\<in>set (top_countries ascii_only ?df).
      count_list (countries ascii_only ?df) (Some [75]) \<le> snd kv"
    by (rule largest [THEN spec, THEN mp])
  then show "count_list (countries ascii_only ?df) (Some [75]) \<le> snd ([74::nat], 2::nat)"
    using kept by (rule bspec)
  show "length (top_countries ascii_only ?df) = 10"
    by (simp add: top_countries_many)
qed

section \<open>Duration by decade\<close>

lemma decade_ge_1980: "(1980 \<le> y div 10 * 10) = (1980 \<le> (y::int))"
  by presburger

lemma recent_row:
  "(decade r \<noteq> None \<and> (case decade r of None \<Rightarrow> False | Some d \<Rightarrow> 1980 \<le> d))
     = (\<exists>y. release_year r = Some y \<and> 1980 \<le> y)"
  by (cases "release_year r") (simp_all add: decade_def decade_ge_1980)

lemma recent_row_decade:
  "(decade r \<noteq> None \<and> (case decade r of None \<Rightarrow> False | Some d \<Rightarrow> 1980 \<le> d))
     = (\<exists>d. decade r = Some d \<and> 1980 \<le> d)"
  by (cases "decade r") simp_all

lemma recent_decades_filter:
  "recent_decades df =
     filter (\<lambda>r. type r = Some (ascii ''Movie'') \<and> (\<exists>y. release_year r = Some y \<and> 1980 \<le> y))
       (rows df)"
  unfolding recent_decades_def movies_def filter_filter
  by (rule filter_cong [OF refl]) (use recent_row in blast)

lemma recent_decades_decade:
  "recent_decades df = filter (\<lambda>r. \<exists>d. decade r = Some d \<and> 1980 \<le> d) (movies df)"
  unfolding recent_decades_def filter_filter
  by (rule filter_cong [OF refl]) (use recent_row_decade in blast)

lemma decade_floor:
  "release_year r = Some y \<Longrightarrow>
     \<exists>d. decade r = Some d \<and> d mod 10 = 0 \<and> d \<le> y \<and> y < d + 10"
proof -
  assume "release_year r = Some y"
  then have "decade r = Some (y div 10 * 10)"
    by (simp add: decade_def)
  moreover have "y div 10 * 10 mod 10 = 0"
    by simp
  moreover have "y div 10 * 10 \<le> y"
    by presburger
  moreover have "y < y div 10 * 10 + 10"
    by presburger
  ultimately show ?thesis
    by simp
qed

text \<open>
  C6. The decade of a record is the largest multiple of ten that is not above its
  release year, and no value when the year is missing; the script computes it on the
  movies only. The records of the duration-by-decade chart are the movies that have a
  decade of at least 1980, each once and in the order of the table, which are the movies
  released in 1980 or later. A movie of 1994 has decade 1990. A movie of 1975 has decade
  1970: in a table of these two movies it is not in the chart, but it is among the
  movies, in the type counts and in the average duration.
\<close>

theorem decade_and_recent_decades:
  "decade r = map_option (\<lambda>y. y div 10 * 10) (release_year r)
   \<and> (\<forall>y. release_year r = Some y \<longrightarrow>
         (\<exists>d. decade r = Some d \<and> d mod 10 = 0 \<and> d \<le> y \<and> y < d + 10))
   \<and> recent_decades df =
         filter (\<lambda>r. \<exists>d. decade r = Some d \<and> 1980 \<le> d) (movies df)
   \<and> recent_decades df =
         filter (\<lambda>r. type r = Some (ascii ''Movie'') \<and> (\<exists>y. release_year r = Some y \<and> 1980 \<le> y))
           (rows df)
   \<and> decade (blank\<lparr>release_year := Some 1994\<rparr>) = Some 1990
   \<and> decade (blank\<lparr>release_year := Some 1975\<rparr>) = Some 1970
   \<and> recent_decades two_movies = [movie_1994]
   \<and> movies two_movies = [movie_1975, movie_1994]
   \<and> type_counts two_movies = [(ascii ''Movie'', 2)]
   \<and> dropna (map (duration_minutes L) (movies two_movies)) = [Float 124 1, Float 154 1]"
proof (intro conjI allI impI)
  show "decade r = map_option (\<lambda>y. y div 10 * 10) (release_year r)"
    by (simp add: decade_def)
next
  fix y assume "release_year r = Some y"
  then show "\<exists>d. decade r = Some d \<and> d mod 10 = 0 \<and> d \<le> y \<and> y < d + 10"
    by (rule decade_floor)
next
  show "recent_decades df = filter (\<lambda>r. \<exists>d. decade r = Some d \<and> 1980 \<le> d) (movies df)"
    by (rule recent_decades_decade)
next
  show "recent_decades df =
         filter (\<lambda>r. type r = Some (ascii ''Movie'') \<and> (\<exists>y. release_year r = Some y \<and> 1980 \<le> y))
           (rows df)"
    by (rule recent_decades_filter)
next
  show "decade (blank\<lparr>release_year := Some 1994\<rparr>) = Some 1990"
    by (simp add: decade_def)
next
  show "decade (blank\<lparr>release_year := Some 1975\<rparr>) = Some 1970"
    by (simp add: decade_def)
next
  show "recent_decades two_movies = [movie_1994]"
    by (simp add: recent_decades_filter two_movies_def movie_1994_def movie_1975_def blank_def)
next
  show two: "movies two_movies = [movie_1975, movie_1994]"
    by (simp add: movies_def two_movies_def movie_1994_def movie_1975_def blank_def)
  show "type_counts two_movies = [(ascii ''Movie'', 2)]"
    by (simp add: type_counts_def value_counts_def dropna_def sort_values_def two_movies_def
        movie_1994_def movie_1975_def blank_def ascii_def)
  show "dropna (map (duration_minutes L) (movies two_movies)) = [Float 124 1, Float 154 1]"
    unfolding two
    by (simp add: dropna_def duration_minutes_def extract_number_def str_extract_def
        isdigit_def float_of_digits_def int_of_digits_def digit_value_def nearest64_def
        movie_1994_def movie_1975_def blank_def ascii_def)
qed

theorem decade_and_recent_decades_witness:
  "(\<exists>d. decade movie_1994 = Some d \<and> d mod 10 = 0 \<and> d \<le> 1994 \<and> 1994 < d + 10)
   \<and> decade movie_1994 = Some 1990
   \<and> recent_decades two_movies = [movie_1994]"
proof -
  have "release_year movie_1994 = Some 1994"
    by (simp add: movie_1994_def)
  then have "\<exists>d. decade movie_1994 = Some d \<and> d mod 10 = 0 \<and> d \<le> 1994 \<and> 1994 < d + 10"
    by (rule decade_and_recent_decades [where r = movie_1994, THEN conjunct2, THEN conjunct1,
          THEN spec, THEN mp])
  moreover have "decade movie_1994 = Some 1990"
    by (simp add: decade_def movie_1994_def)
  moreover have "recent_decades two_movies = [movie_1994]"
    by (simp add: recent_decades_filter two_movies_def movie_1994_def movie_1975_def blank_def)
  ultimately show ?thesis
    by (intro conjI)
qed

section \<open>The first sentence\<close>

lemma set_type_counts:
  "set (type_counts df) =
     (\<lambda>k. (k, length (filter (\<lambda>r. type r = Some k) (rows df))))
       ` {k. \<exists>r\<in>set (rows df). type r = Some k}"
proof -
  have "{k. Some k \<in> set (map type (rows df))} = {k. \<exists>r\<in>set (rows df). type r = Some k}"
    by force
  then show ?thesis
    by (simp add: type_counts_def set_sort_values set_value_counts count_dropna set_dropna
        count_list_map_filter del: set_map)
qed

lemma values_sum_type_counts:
  "values_sum (type_counts df) = length (filter (\<lambda>r. type r \<noteq> None) (rows df))"
  by (simp add: type_counts_def values_sum_sort_values values_sum_value_counts length_dropna
      filter_map comp_def)

lemma ins_type_sentence:
  assumes "type_counts df \<noteq> []"
  shows "\<exists>dominant. (dominant, values_max (type_counts df)) \<in> set (type_counts df)
           \<and> ins_type df =
               [dominant @ ascii '' lead with ~''
                  @ format_f1 (times_100 (true_divide (values_max (type_counts df))
                                 (values_sum (type_counts df))))
                  @ ascii ''% of total titles.'']"
proof -
  from idxmax_Some [OF assms] obtain k where
    k: "idxmax (type_counts df) = Some k" "(k, values_max (type_counts df)) \<in> set (type_counts df)"
    by blast
  from assms k(1) have "ins_type df =
      [k @ ascii '' lead with ~''
         @ format_f1 (times_100 (true_divide (values_max (type_counts df))
                        (values_sum (type_counts df))))
         @ ascii ''% of total titles.'']"
    by (simp add: ins_type_def Let_def)
  with k(2) show ?thesis
    by blast
qed

lemma type_counts_example:
  "type_counts two_movies_one_show = [(ascii ''Movie'', 2), (ascii ''TV Show'', 1)]"
  by (simp add: type_counts_def value_counts_def dropna_def sort_values_def
      two_movies_one_show_def movie_1994_def movie_1975_def show_two_seasons_def blank_def
      ascii_def)

lemma two_thirds: "format_f1 (times_100 (true_divide 2 3)) = ascii ''66.7''"
proof -
  have "true_divide 2 3 = Float 6004799503160661 9007199254740992"
    by (simp add: true_divide_def nearest64_def round64_def bitlen.simps round_half_even_def
        Let_def)
  moreover have "times_100 (Float 6004799503160661 9007199254740992)
      = Float 4691249611844266 70368744177664"
    by (simp add: times_100_def round64_def bitlen.simps round_half_even_def Let_def)
  moreover have "format_f1 (Float 4691249611844266 70368744177664) = ascii ''66.7''"
    by (simp add: format_f1_def round_half_even_def Let_def str_nat.simps ascii_def)
  ultimately show ?thesis
    by simp
qed

lemma ins_type_example:
  "ins_type two_movies_one_show = [ascii ''Movie lead with ~66.7% of total titles.'']"
proof -
  have "idxmax [(ascii ''Movie'', 2::nat), (ascii ''TV Show'', 1)] = Some (ascii ''Movie'')"
    by (simp add: idxmax_def values_max_def)
  moreover have "values_max [(ascii ''Movie'', 2::nat), (ascii ''TV Show'', 1)] = 2"
    by (simp add: values_max_def)
  moreover have "values_sum [(ascii ''Movie'', 2::nat), (ascii ''TV Show'', 1)] = 3"
    by (simp add: values_sum_def)
  ultimately have "ins_type two_movies_one_show
      = [ascii ''Movie'' @ ascii '' lead with ~'' @ ascii ''66.7'' @ ascii ''% of total titles.'']"
    by (simp add: ins_type_def type_counts_example two_thirds)
  then show ?thesis
    by (simp add: ascii_def)
qed

lemma values_max_le_sum: "values_max kvs \<le> values_sum kvs"
  by (induction kvs) (simp_all add: values_max_def values_sum_def)

lemma type_counts_Nil: "(type_counts df = []) = (dropna (map type (rows df)) = [])"
  by (simp add: type_counts_def sort_values_Nil value_counts_Nil)

lemma values_sum_type_counts_pos:
  assumes "type_counts df \<noteq> []"
  shows "0 < values_sum (type_counts df)"
proof -
  from assms have "dropna (map type (rows df)) \<noteq> []"
    by (simp only: type_counts_Nil not_False_eq_True)
  moreover have "values_sum (type_counts df) = length (dropna (map type (rows df)))"
    by (simp add: type_counts_def values_sum_sort_values values_sum_value_counts)
  ultimately show ?thesis
    by simp
qed

lemma format_f1_near:
  assumes "0 < w"
  shows "\<exists>t. format_f1 (Float v w) = str_nat (t div 10) @ ascii ''.'' @ str_nat (t mod 10)
           \<and> \<bar>real t / 10 - real v / real w\<bar> \<le> 1 / 20"
proof -
  define t where "t = round_half_even (10 * v) w"
  have "format_f1 (Float v w) = str_nat (t div 10) @ ascii ''.'' @ str_nat (t mod 10)"
    by (simp add: format_f1_def Let_def t_def)
  moreover from round_half_even_real [OF assms, of "10 * v"]
  have "\<bar>real t - 10 * real v / real w\<bar> \<le> 1 / 2"
    by (simp add: t_def)
  then have "\<bar>real t / 10 - real v / real w\<bar> \<le> 1 / 20"
    by (simp add: abs_le_iff field_simps)
  ultimately show ?thesis
    by blast
qed

lemma percent_text_near:
  assumes "a \<le> b" "0 < b" "b < 2 ^ 53"
  shows "\<exists>t. format_f1 (times_100 (true_divide a b))
               = str_nat (t div 10) @ ascii ''.'' @ str_nat (t mod 10)
           \<and> \<bar>real t / 10 - 100 * real a / real b\<bar> \<le> 1 / 20 + 1 / 2 ^ 45"
proof -
  from percent_near [OF assms] obtain v w where
    vw: "times_100 (true_divide a b) = Float v w" "0 < w"
      "\<bar>real v / real w - 100 * real a / real b\<bar> \<le> 1 / 2 ^ 45"
    by blast
  from format_f1_near [OF vw(2), of v] obtain t where
    t: "format_f1 (Float v w) = str_nat (t div 10) @ ascii ''.'' @ str_nat (t mod 10)"
      "\<bar>real t / 10 - real v / real w\<bar> \<le> 1 / 20"
    by blast
  from t(2) vw(3) have "\<bar>real t / 10 - 100 * real a / real b\<bar> \<le> 1 / 20 + 1 / 2 ^ 45"
    by linarith
  with t(1) vw(1) show ?thesis
    by auto
qed

text \<open>
  C7. When the type counts are not empty, the first sentence of the insights is
  \<open>"<Type> lead with ~<pct>% of total titles."\<close>: the type named is one whose count is the
  largest of the type counts, and \<open><pct>\<close> is the float \<open>largest / total * 100\<close> printed
  with one decimal. While the total is below \<open>2^53\<close> the number printed is within
  \<open>0.05 + 2^-45\<close> of the exact percentage. The counts are, per type, the number of
  records of that type, and the total is the number of records that have a type. When the
  type counts are empty there is no such sentence. For two movies and one show the
  sentence is \<open>"Movie lead with ~66.7% of total titles."\<close>.
\<close>

theorem first_insight_dominant_type:
  "(type_counts df \<noteq> [] \<longrightarrow>
      (\<exists>dominant. (dominant, values_max (type_counts df)) \<in> set (type_counts df)
         \<and> (\<forall>kv\<in>set (type_counts df). snd kv \<le> values_max (type_counts df))
         \<and> ins_type df =
             [dominant @ ascii '' lead with ~''
                @ format_f1 (times_100 (true_divide (values_max (type_counts df))
                               (values_sum (type_counts df))))
                @ ascii ''% of total titles.'']
         \<and> hd (ins L df) = hd (ins_type df)))
   \<and> (type_counts df \<noteq> [] \<and> values_sum (type_counts df) < 2 ^ 53 \<longrightarrow>
        (\<exists>t. format_f1 (times_100 (true_divide (values_max (type_counts df))
                        (values_sum (type_counts df))))
                = str_nat (t div 10) @ ascii ''.'' @ str_nat (t mod 10)
           \<and> \<bar>real t / 10
                - 100 * real (values_max (type_counts df)) / real (values_sum (type_counts df))\<bar>
               \<le> 1 / 20 + 1 / 2 ^ 45))
   \<and> (type_counts df = [] \<longrightarrow> ins_type df = [])
   \<and> ins L df = ins_type df @ ins_countries L df @ ins_growth df @ ins_duration L df
   \<and> set (type_counts df) =
         (\<lambda>k. (k, length (filter (\<lambda>r. type r = Some k) (rows df))))
           ` {k. \<exists>r\<in>set (rows df). type r = Some k}
   \<and> values_sum (type_counts df) = length (filter (\<lambda>r. type r \<noteq> None) (rows df))
   \<and> type_counts two_movies_one_show = [(ascii ''Movie'', 2), (ascii ''TV Show'', 1)]
   \<and> ins_type two_movies_one_show = [ascii ''Movie lead with ~66.7% of total titles.'']"
proof (intro conjI impI)
  assume nonempty: "type_counts df \<noteq> []"
  from ins_type_sentence [OF this] obtain dominant where
    dominant: "(dominant, values_max (type_counts df)) \<in> set (type_counts df)"
      "ins_type df =
         [dominant @ ascii '' lead with ~''
            @ format_f1 (times_100 (true_divide (values_max (type_counts df))
                           (values_sum (type_counts df))))
            @ ascii ''% of total titles.'']"
    by blast
  have "\<forall>kv\<in>set (type_counts df). snd kv \<le> values_max (type_counts df)"
    by (simp add: values_max_upper)
  moreover from dominant(2) have "hd (ins L df) = hd (ins_type df)"
    by (simp add: ins_def)
  ultimately show "\<exists>dominant. (dominant, values_max (type_counts df)) \<in> set (type_counts df)
         \<and> (\<forall>kv\<in>set (type_counts df). snd kv \<le> values_max (type_counts df))
         \<and> ins_type df =
             [dominant @ ascii '' lead with ~''
                @ format_f1 (times_100 (true_divide (values_max (type_counts df))
                               (values_sum (type_counts df))))
                @ ascii ''% of total titles.'']
         \<and> hd (ins L df) = hd (ins_type df)"
    using dominant by blast
next
  assume "type_counts df \<noteq> [] \<and> values_sum (type_counts df) < 2 ^ 53"
  then have "0 < values_sum (type_counts df)" "values_sum (type_counts df) < 2 ^ 53"
    by (simp_all add: values_sum_type_counts_pos)
  with values_max_le_sum [of "type_counts df"]
  show "\<exists>t. format_f1 (times_100 (true_divide (values_max (type_counts df))
                        (values_sum (type_counts df))))
                = str_nat (t div 10) @ ascii ''.'' @ str_nat (t mod 10)
           \<and> \<bar>real t / 10
                - 100 * real (values_max (type_counts df)) / real (values_sum (type_counts df))\<bar>
               \<le> 1 / 20 + 1 / 2 ^ 45"
    by (rule percent_text_near)
next
  assume "type_counts df = []"
  then show "ins_type df = []"
    by (simp add: ins_type_def)
next
  show "ins L df = ins_type df @ ins_countries L df @ ins_growth df @ ins_duration L df"
    by (simp add: ins_def)
next
  show "set (type_counts df) =
         (\<lambda>k. (k, length (filter (\<lambda>r. type r = Some k) (rows df))))
           ` {k. \<exists>r\<in>set (rows df). type r = Some k}"
    by (rule set_type_counts)
next
  show "values_sum (type_counts df) = length (filter (\<lambda>r. type r \<noteq> None) (rows df))"
    by (rule values_sum_type_counts)
next
  show "type_counts two_movies_one_show = [(ascii ''Movie'', 2), (ascii ''TV Show'', 1)]"
    by (rule type_counts_example)
next
  show "ins_type two_movies_one_show = [ascii ''Movie lead with ~66.7% of total titles.'']"
    by (rule ins_type_example)
qed

theorem first_insight_dominant_type_witness:
  "(\<exists>dominant. (dominant, values_max (type_counts two_movies_one_show))
        \<in> set (type_counts two_movies_one_show)
      \<and> (\<forall>kv\<in>set (type_counts two_movies_one_show).
            snd kv \<le> values_max (type_counts two_movies_one_show))
      \<and> ins_type two_movies_one_show =
          [dominant @ ascii '' lead with ~''
             @ format_f1 (times_100 (true_divide (values_max (type_counts two_movies_one_show))
                            (values_sum (type_counts two_movies_one_show))))
             @ ascii ''% of total titles.'']
      \<and> hd (ins ascii_only two_movies_one_show) = hd (ins_type two_movies_one_show))
   \<and> (\<exists>t. format_f1 (times_100 (true_divide (values_max (type_counts two_movies_one_show))
                    (values_sum (type_counts two_movies_one_show))))
            = str_nat (t div 10) @ ascii ''.'' @ str_nat (t mod 10)
       \<and> \<bar>real t / 10
            - 100 * real (values_max (type_counts two_movies_one_show))
                / real (values_sum (type_counts two_movies_one_show))\<bar>
           \<le> 1 / 20 + 1 / 2 ^ 45)
   \<and> ins_type two_movies_one_show = [ascii ''Movie lead with ~66.7% of total titles.'']"
proof (intro conjI)
  note claim = first_insight_dominant_type [where df = two_movies_one_show and L = ascii_only]
  have nonempty: "type_counts two_movies_one_show \<noteq> []"
    by (simp add: type_counts_example)
  then show "\<exists>dominant. (dominant, values_max (type_counts two_movies_one_show))
        \<in> set (type_counts two_movies_one_show)
      \<and> (\<forall>kv\<in>set (type_counts two_movies_one_show).
            snd kv \<le> values_max (type_counts two_movies_one_show))
      \<and> ins_type two_movies_one_show =
          [dominant @ ascii '' lead with ~''
             @ format_f1 (times_100 (true_divide (values_max (type_counts two_movies_one_show))
                            (values_sum (type_counts two_movies_one_show))))
             @ ascii ''% of total titles.'']
      \<and> hd (ins ascii_only two_movies_one_show) = hd (ins_type two_movies_one_show)"
    by (rule claim [THEN conjunct1, THEN mp])
  have "values_sum (type_counts two_movies_one_show) < 2 ^ 53"
    by (simp add: type_counts_example values_sum_def)
  with nonempty have "type_counts two_movies_one_show \<noteq> []
      \<and> values_sum (type_counts two_movies_one_show) < 2 ^ 53"
    by (rule conjI)
  then show "\<exists>t. format_f1 (times_100 (true_divide (values_max (type_counts two_movies_one_show))
                    (values_sum (type_counts two_movies_one_show))))
            = str_nat (t div 10) @ ascii ''.'' @ str_nat (t mod 10)
       \<and> \<bar>real t / 10
            - 100 * real (values_max (type_counts two_movies_one_show))
                / real (values_sum (type_counts two_movies_one_show))\<bar>
           \<le> 1 / 20 + 1 / 2 ^ 45"
    by (rule claim [THEN conjunct2, THEN conjunct1, THEN mp])
  show "ins_type two_movies_one_show = [ascii ''Movie lead with ~66.7% of total titles.'']"
    by (rule claim [THEN conjunct2, THEN conjunct2, THEN conjunct2, THEN conjunct2,
          THEN conjunct2, THEN conjunct2, THEN conjunct2])
qed

section \<open>The seventh chart\<close>

lemma seasons_notna:
  "(seasons L r \<noteq> None) = (\<exists>s. duration r = Some s \<and> (\<exists>c\<in>set s. isdigit L c))"
proof (cases "duration r")
  case None
  then show ?thesis
    by (simp add: seasons_def extract_number_def)
next
  case (Some s)
  have "(str_extract L s \<noteq> None) = (\<exists>c\<in>set s. isdigit L c)"
    by (simp add: str_extract_None)
  with Some show ?thesis
    by (simp add: seasons_def extract_number_def)
qed

lemma notna_sum_positive:
  "(0 < length (filter (\<lambda>r. seasons L r \<noteq> None) (tv df)))
     = (\<exists>r\<in>set (rows df). type r = Some (ascii ''TV Show'') \<and> seasons L r \<noteq> None)"
  by (auto simp: tv_def length_greater_0_conv filter_empty_conv simp del: length_0_conv)

text \<open>
  C9. The files saved are the six charts and, after them, the seasons histogram exactly
  when some record of type \<open>TV Show\<close> has a seasons value: with such a record there are
  seven files, without one (no show at all, or no show whose duration has a digit) there
  are six. A record has a seasons value exactly when its duration text has a digit, of
  ASCII or of another script. A run that ends without error saves these files for the
  cleaned table.
\<close>

theorem seventh_chart_iff_seasons:
  "saved_plots L df =
     map ascii
       [''01_movies_vs_tv.png'', ''02_top_countries.png'', ''03_growth_by_year_added.png'',
        ''04_top_genres.png'', ''05_movie_duration_hist.png'',
        ''06_movie_duration_by_decade.png'']
     @ (if \<exists>r\<in>set (rows df). type r = Some (ascii ''TV Show'') \<and> seasons L r \<noteq> None
        then [ascii ''07_tv_seasons_hist.png''] else [])
   \<and> (ascii ''07_tv_seasons_hist.png'' \<in> set (saved_plots L df))
       = (\<exists>r\<in>set (rows df). type r = Some (ascii ''TV Show'') \<and> seasons L r \<noteq> None)
   \<and> length (saved_plots L df)
       = (if \<exists>r\<in>set (rows df). type r = Some (ascii ''TV Show'') \<and> seasons L r \<noteq> None
          then 7 else 6)
   \<and> (seasons L r \<noteq> None) = (\<exists>s. duration r = Some s \<and> (\<exists>c\<in>set s. isdigit L c))
   \<and> (\<forall>out. run L to_datetime raw = Inr out \<longrightarrow>
         figures out = saved_plots L (clean L to_datetime raw))"
proof (intro conjI allI impI)
  show plots: "saved_plots L df =
     map ascii
       [''01_movies_vs_tv.png'', ''02_top_countries.png'', ''03_growth_by_year_added.png'',
        ''04_top_genres.png'', ''05_movie_duration_hist.png'',
        ''06_movie_duration_by_decade.png'']
     @ (if \<exists>r\<in>set (rows df). type r = Some (ascii ''TV Show'') \<and> seasons L r \<noteq> None
        then [ascii ''07_tv_seasons_hist.png''] else [])"
    unfolding saved_plots_def notna_sum_positive ..
  show "(ascii ''07_tv_seasons_hist.png'' \<in> set (saved_plots L df))
       = (\<exists>r\<in>set (rows df). type r = Some (ascii ''TV Show'') \<and> seasons L r \<noteq> None)"
    unfolding plots by (simp add: ascii_def)
  show "length (saved_plots L df)
       = (if \<exists>r\<in>set (rows df). type r = Some (ascii ''TV Show'') \<and> seasons L r \<noteq> None
          then 7 else 6)"
    unfolding plots by simp
  show "(seasons L r \<noteq> None) = (\<exists>s. duration r = Some s \<and> (\<exists>c\<in>set s. isdigit L c))"
    by (rule seasons_notna)
next
  fix out assume "run L to_datetime raw = Inr out"
  then show "figures out = saved_plots L (clean L to_datetime raw)"
    by (rule run_figures)
qed

theorem seventh_chart_iff_seasons_witness:
  "(\<exists>out. run ascii_only (\<lambda>s. None) \<lparr>columns = all_columns, rows = [show_two_seasons]\<rparr> = Inr out
      \<and> figures out =
          map ascii
            [''01_movies_vs_tv.png'', ''02_top_countries.png'', ''03_growth_by_year_added.png'',
             ''04_top_genres.png'', ''05_movie_duration_hist.png'',
             ''06_movie_duration_by_decade.png'', ''07_tv_seasons_hist.png''])
   \<and> (\<exists>out. run ascii_only (\<lambda>s. None) \<lparr>columns = all_columns, rows = [show_no_duration]\<rparr> = Inr out
      \<and> figures out =
          map ascii
            [''01_movies_vs_tv.png'', ''02_top_countries.png'', ''03_growth_by_year_added.png'',
             ''04_top_genres.png'', ''05_movie_duration_hist.png'',
             ''06_movie_duration_by_decade.png''])
   \<and> (\<exists>out. run arabic_indic (\<lambda>s. None) \<lparr>columns = all_columns, rows = [show_arabic_indic]\<rparr> = Inr out
      \<and> figures out =
          map ascii
            [''01_movies_vs_tv.png'', ''02_top_countries.png'', ''03_growth_by_year_added.png'',
             ''04_top_genres.png'', ''05_movie_duration_hist.png'',
             ''06_movie_duration_by_decade.png'', ''07_tv_seasons_hist.png''])"
proof (intro conjI)
  let ?raw = "\<lparr>columns = all_columns, rows = [show_two_seasons]\<rparr>"
  have "set required_columns \<subseteq> set (columns ?raw)"
    by (simp add: required_all_columns)
  from run_Inr [OF this, of ascii_only "\<lambda>s. None"]
  obtain out where out: "run ascii_only (\<lambda>s. None) ?raw = Inr out"
    by blast
  then have "figures out = saved_plots ascii_only (clean ascii_only (\<lambda>s. None) ?raw)"
    by (rule seventh_chart_iff_seasons [where L = ascii_only and to_datetime = "\<lambda>s. None"
          and raw = ?raw,
          THEN conjunct2, THEN conjunct2, THEN conjunct2, THEN conjunct2, THEN spec, THEN mp])
  also have "\<dots> = map ascii [''01_movies_vs_tv.png'', ''02_top_countries.png'',
      ''03_growth_by_year_added.png'', ''04_top_genres.png'', ''05_movie_duration_hist.png'',
      ''06_movie_duration_by_decade.png'', ''07_tv_seasons_hist.png'']"
    by (simp add: saved_plots_def tv_def clean_def clean_row_def all_columns_def
        show_two_seasons_def blank_def fillna_strip_def strip_def isspace_def seasons_def
        extract_number_def str_extract_def isdigit_def ascii_def)
  finally show "\<exists>out. run ascii_only (\<lambda>s. None) ?raw = Inr out
      \<and> figures out =
          map ascii
            [''01_movies_vs_tv.png'', ''02_top_countries.png'', ''03_growth_by_year_added.png'',
             ''04_top_genres.png'', ''05_movie_duration_hist.png'',
             ''06_movie_duration_by_decade.png'', ''07_tv_seasons_hist.png'']"
    using out by blast
next
  let ?raw = "\<lparr>columns = all_columns, rows = [show_no_duration]\<rparr>"
  have "set required_columns \<subseteq> set (columns ?raw)"
    by (simp add: required_all_columns)
  from run_Inr [OF this, of ascii_only "\<lambda>s. None"]
  obtain out where out: "run ascii_only (\<lambda>s. None) ?raw = Inr out"
    by blast
  then have "figures out = saved_plots ascii_only (clean ascii_only (\<lambda>s. None) ?raw)"
    by (rule seventh_chart_iff_seasons [where L = ascii_only and to_datetime = "\<lambda>s. None"
          and raw = ?raw,
          THEN conjunct2, THEN conjunct2, THEN conjunct2, THEN conjunct2, THEN spec, THEN mp])
  also have "\<dots> = map ascii [''01_movies_vs_tv.png'', ''02_top_countries.png'',
      ''03_growth_by_year_added.png'', ''04_top_genres.png'', ''05_movie_duration_hist.png'',
      ''06_movie_duration_by_decade.png'']"
    by (simp add: saved_plots_def tv_def clean_def clean_row_def all_columns_def
        show_no_duration_def blank_def fillna_strip_def strip_def isspace_def seasons_def
        extract_number_def str_extract_def isdigit_def ascii_def)
  finally show "\<exists>out. run ascii_only (\<lambda>s. None) ?raw = Inr out
      \<and> figures out =
          map ascii
            [''01_movies_vs_tv.png'', ''02_top_countries.png'', ''03_growth_by_year_added.png'',
             ''04_top_genres.png'', ''05_movie_duration_hist.png'',
             ''06_movie_duration_by_decade.png'']"
    using out by blast
next
  let ?raw = "\<lparr>columns = all_columns, rows = [show_arabic_indic]\<rparr>"
  have "set required_columns \<subseteq> set (columns ?raw)"
    by (simp add: required_all_columns)
  from run_Inr [OF this, of arabic_indic "\<lambda>s. None"]
  obtain out where out: "run arabic_indic (\<lambda>s. None) ?raw = Inr out"
    by blast
  then have "figures out = saved_plots arabic_indic (clean arabic_indic (\<lambda>s. None) ?raw)"
    by (rule seventh_chart_iff_seasons [where L = arabic_indic and to_datetime = "\<lambda>s. None"
          and raw = ?raw,
          THEN conjunct2, THEN conjunct2, THEN conjunct2, THEN conjunct2, THEN spec, THEN mp])
  also have "\<dots> = map ascii [''01_movies_vs_tv.png'', ''02_top_countries.png'',
      ''03_growth_by_year_added.png'', ''04_top_genres.png'', ''05_movie_duration_hist.png'',
      ''06_movie_duration_by_decade.png'', ''07_tv_seasons_hist.png'']"
    by (simp add: saved_plots_def tv_def clean_def clean_row_def all_columns_def
        show_arabic_indic_def blank_def fillna_strip_def strip_def isspace_def seasons_def
        extract_number_def str_extract_def isdigit_def ascii_def arabic_indic_def)
  finally show "\<exists>out. run arabic_indic (\<lambda>s. None) ?raw = Inr out
      \<and> figures out =
          map ascii
            [''01_movies_vs_tv.png'', ''02_top_countries.png'', ''03_growth_by_year_added.png'',
             ''04_top_genres.png'', ''05_movie_duration_hist.png'',
             ''06_movie_duration_by_decade.png'', ''07_tv_seasons_hist.png'']"
    using out by blast
qed

section \<open>Empty tokens\<close>

text \<open>
  C10. A trailing comma leaves an empty piece: \<open>"India,"\<close> splits into \<open>"India"\<close> and the
  empty text. Only the token \<open>"Unknown"\<close> is taken out before counting, so with this one
  record the empty text is a label of the top-countries series, with count 1; the same
  holds for the genres with \<open>"Dramas,"\<close>.
\<close>

theorem empty_token_is_counted:
  "split_explode_strip L [Some (ascii ''India,'')] = [Some (ascii ''India''), Some []]
   \<and> ([], 1) \<in> set (top_countries L (clean L to_datetime
         \<lparr>columns = all_columns, rows = [blank\<lparr>country := Some (ascii ''India,'')\<rparr>]\<rparr>))
   \<and> ([], 1) \<in> set (top_genres L (clean L to_datetime
         \<lparr>columns = all_columns, rows = [blank\<lparr>listed_in := Some (ascii ''Dramas,'')\<rparr>]\<rparr>))"
proof (intro conjI)
  show "split_explode_strip L [Some (ascii ''India,'')] = [Some (ascii ''India''), Some []]"
    by (simp add: split_explode_strip_def strip_def isspace_def ascii_def)
  have "top_countries L (clean L to_datetime
          \<lparr>columns = all_columns, rows = [blank\<lparr>country := Some (ascii ''India,'')\<rparr>]\<rparr>)
        = [(ascii ''India'', 1), ([], 1)]"
    by (simp add: top_countries_def countries_def clean_def clean_row_def all_columns_def
        blank_def fillna_strip_def split_explode_strip_def strip_def isspace_def
        value_counts_def dropna_def sort_values_def head_def ascii_def)
  then show "([], 1) \<in> set (top_countries L (clean L to_datetime
         \<lparr>columns = all_columns, rows = [blank\<lparr>country := Some (ascii ''India,'')\<rparr>]\<rparr>))"
    by simp
  have "top_genres L (clean L to_datetime
          \<lparr>columns = all_columns, rows = [blank\<lparr>listed_in := Some (ascii ''Dramas,'')\<rparr>]\<rparr>)
        = [(ascii ''Dramas'', 1), ([], 1)]"
    by (simp add: top_genres_def genres_def clean_def clean_row_def all_columns_def
        blank_def fillna_strip_def split_explode_strip_def strip_def isspace_def
        value_counts_def dropna_def sort_values_def head_def ascii_def)
  then show "([], 1) \<in> set (top_genres L (clean L to_datetime
         \<lparr>columns = all_columns, rows = [blank\<lparr>listed_in := Some (ascii ''Dramas,'')\<rparr>]\<rparr>))"
    by simp
qed


end
